theory Spec2Isabelle
  imports Complex_Main
begin

section \<open>Values of the JavaScript runtime that reach a coordinate slot\<close>

text \<open>
  A coordinate of a point is a JavaScript value. \<open>Number\<close> applied to a token yields a
  number or \<open>NaN\<close>, a missing array element reads as \<open>undefined\<close>, and the JSON round
  trip that copies a snapshot turns \<open>NaN\<close> into \<open>null\<close>. Finite binary64 values are
  rationals; the model computes with them exactly (no rounding).
\<close>

datatype jsnum = Num rat | NaN | Undefined | Null

text \<open>\<open>c * v\<close> for a numeric literal \<open>c\<close>: \<open>null\<close> converts to 0, \<open>undefined\<close> to \<open>NaN\<close>.\<close>

fun js_times :: "rat \<Rightarrow> jsnum \<Rightarrow> jsnum" where
  "js_times c (Num q) = Num (c * q)"
| "js_times c Null = Num 0"
| "js_times c NaN = NaN"
| "js_times c Undefined = NaN"

text \<open>\<open>a + b\<close> on two results of a multiplication (numbers or \<open>NaN\<close>).\<close>

fun js_plus :: "jsnum \<Rightarrow> jsnum \<Rightarrow> jsnum" where
  "js_plus (Num a) (Num b) = Num (a + b)"
| "js_plus _ _ = NaN"

section \<open>Points (GlyphEditor.tsx, interface Point)\<close>

datatype ptype = Corner | Smooth

text \<open>
  The optional control fields \<open>cx1, cy1, cx2, cy2\<close> of the interface are never written or
  read by any function of the repository and are left out.
\<close>

record Point =
  pt_x :: jsnum
  pt_y :: jsnum
  pt_type :: ptype

text \<open>
  \<open>JSON.parse(JSON.stringify(points))\<close>: numbers and strings survive, \<open>NaN\<close> is written as
  \<open>null\<close>, a property holding \<open>undefined\<close> is dropped and reads as \<open>undefined\<close> again.
\<close>

fun json_num :: "jsnum \<Rightarrow> jsnum" where
  "json_num NaN = Null"
| "json_num v = v"

definition json_copy :: "Point list \<Rightarrow> Point list" where
  "json_copy ps = map (\<lambda>p. p\<lparr>pt_x := json_num (pt_x p), pt_y := json_num (pt_y p)\<rparr>) ps"

text \<open>\<open>xs.filter((_, i) => P i)\<close>: the elements whose index satisfies \<open>P\<close>, in order.\<close>

definition filter_index :: "(nat \<Rightarrow> bool) \<Rightarrow> 'a list \<Rightarrow> 'a list" where
  "filter_index P xs = map snd (filter (\<lambda>(i, _). P i) (enumerate 0 xs))"

text \<open>smoothPoints: every edge \<open>curr \<rightarrow> next\<close> of the closed polygon yields two corner points.\<close>

definition smooth_edge :: "Point \<Rightarrow> Point \<Rightarrow> Point list" where
  "smooth_edge cur nxt =
     (let qx = js_plus (js_times 0.75 (pt_x cur)) (js_times 0.25 (pt_x nxt));
          qy = js_plus (js_times 0.75 (pt_y cur)) (js_times 0.25 (pt_y nxt));
          rx = js_plus (js_times 0.25 (pt_x cur)) (js_times 0.75 (pt_x nxt));
          ry = js_plus (js_times 0.25 (pt_y cur)) (js_times 0.75 (pt_y nxt))
      in [\<lparr>pt_x = qx, pt_y = qy, pt_type = Corner\<rparr>,
          \<lparr>pt_x = rx, pt_y = ry, pt_type = Corner\<rparr>])"

definition smoothPoints :: "Point list \<Rightarrow> Point list" where
  "smoothPoints ps =
     (if length ps < 3 then ps
      else concat (map (\<lambda>i. smooth_edge (ps ! i) (ps ! ((i + 1) mod length ps)))
                       [0..<length ps]))"

section \<open>The editor's point and history state (GlyphEditor.tsx)\<close>

text \<open>
  The component state that the point handlers read and write: \<open>points\<close>, \<open>history\<close>,
  \<open>dragIdx\<close> (\<open>null\<close> is \<open>None\<close>) and \<open>isPanning\<close>. The viewport transform is a separate
  state variable, modelled in its own section.
\<close>

record editor =
  points :: "Point list"
  history :: "Point list list"
  dragIdx :: "nat option"
  isPanning :: bool

text \<open>\<open>[...prev.slice(-10), copy]\<close>: the last ten entries, then the new snapshot.\<close>

definition saveHistory :: "editor \<Rightarrow> editor" where
  "saveHistory s =
     s\<lparr>history := drop (length (history s) - 10) (history s) @ [json_copy (points s)]\<rparr>"

definition handleUndo :: "editor \<Rightarrow> editor" where
  "handleUndo s =
     (if length (history s) = 0 then s
      else s\<lparr>points := history s ! (length (history s) - 1),
              history := butlast (history s)\<rparr>)"

definition handleNodeMouseDown :: "nat \<Rightarrow> editor \<Rightarrow> editor" where
  "handleNodeMouseDown idx s = (saveHistory s)\<lparr>dragIdx := Some idx\<rparr>"

definition handleCanvasMouseDown :: "editor \<Rightarrow> editor" where
  "handleCanvasMouseDown s = s\<lparr>isPanning := True\<rparr>"

text \<open>
  \<open>newPts[dragIdx] = {...newPts[dragIdx], x, y}\<close>. An index beyond the end makes
  JavaScript grow the array up to that index; the slots in between are filled here with a
  point whose coordinates are \<open>undefined\<close>, and the new element has no \<open>type\<close>, which
  every reader of \<open>type\<close> treats like a corner.
\<close>

definition drag_write :: "Point list \<Rightarrow> nat \<Rightarrow> jsnum \<Rightarrow> jsnum \<Rightarrow> Point list" where
  "drag_write pts i lx ly =
     (if i < length pts then pts[i := (pts ! i)\<lparr>pt_x := lx, pt_y := ly\<rparr>]
      else pts @ replicate (i - length pts) \<lparr>pt_x = Undefined, pt_y = Undefined, pt_type = Corner\<rparr>
               @ [\<lparr>pt_x = lx, pt_y = ly, pt_type = Corner\<rparr>])"

text \<open>
  handleMouseMove: panning has priority (it changes the transform only); otherwise a
  dragged node moves to \<open>loc\<close>, the pointer position in model coordinates, which the
  browser computes. The content group that \<open>contentRef\<close> refers to is rendered as long as
  the editor is, so the test of \<open>contentRef.current\<close> always succeeds.
\<close>

definition handleMouseMove :: "rat \<Rightarrow> rat \<Rightarrow> editor \<Rightarrow> editor" where
  "handleMouseMove locx locy s =
     (if isPanning s then s
      else case dragIdx s of
             None \<Rightarrow> s
           | Some i \<Rightarrow> s\<lparr>points := drag_write (points s) i (Num locx) (Num locy)\<rparr>)"

definition handleMouseUp :: "editor \<Rightarrow> editor" where
  "handleMouseUp s = s\<lparr>dragIdx := None, isPanning := False\<rparr>"

definition handleDoubleClickNode :: "nat \<Rightarrow> editor \<Rightarrow> editor" where
  "handleDoubleClickNode idx s =
     (let s1 = saveHistory s
      in if length (points s) > 3
         then s1\<lparr>points := filter_index (\<lambda>i. i \<noteq> idx) (points s1)\<rparr>
         else s1)"

definition handleSmooth :: "editor \<Rightarrow> editor" where
  "handleSmooth s = (let s1 = saveHistory s in s1\<lparr>points := smoothPoints (points s1)\<rparr>)"

definition handleSimplify :: "editor \<Rightarrow> editor" where
  "handleSimplify s =
     (let s1 = saveHistory s
      in if length (points s) > 6
         then s1\<lparr>points := filter_index (\<lambda>i. i mod 2 = 0) (points s1)\<rparr>
         else s1)"

text \<open>The user events bound to these handlers in the rendered editor.\<close>

datatype event =
    NodeMouseDown nat
  | CanvasMouseDown
  | MouseMove rat rat
  | MouseUp
  | DoubleClickNode nat
  | SmoothClick
  | SimplifyClick
  | UndoClick

fun editor_step :: "editor \<Rightarrow> event \<Rightarrow> editor" where
  "editor_step s (NodeMouseDown i) = handleNodeMouseDown i s"
| "editor_step s CanvasMouseDown = handleCanvasMouseDown s"
| "editor_step s (MouseMove lx ly) = handleMouseMove lx ly s"
| "editor_step s MouseUp = handleMouseUp s"
| "editor_step s (DoubleClickNode i) = handleDoubleClickNode i s"
| "editor_step s SmoothClick = handleSmooth s"
| "editor_step s SimplifyClick = handleSimplify s"
| "editor_step s UndoClick = handleUndo s"



text \<open>
  A node event carries the index of a rendered node, so it is below the number of
  points; the other events are always possible.
\<close>

fun enabled :: "editor \<Rightarrow> event \<Rightarrow> bool" where
  "enabled s (NodeMouseDown i) = (i < length (points s))"
| "enabled s (DoubleClickNode i) = (i < length (points s))"
| "enabled s _ = True"

text \<open>The state of an editor just opened on the point sequence \<open>ps\<close> (the \<open>useState\<close> defaults).\<close>

definition opened :: "Point list \<Rightarrow> editor" where
  "opened ps = \<lparr>points = ps, history = [], dragIdx = None, isPanning = False\<rparr>"

text \<open>The states the editor reaches from the point sequence \<open>ps0\<close> it was opened on.\<close>

inductive reachable :: "Point list \<Rightarrow> editor \<Rightarrow> bool" for ps0 :: "Point list" where
  reach_init: "reachable ps0 (opened ps0)"
| reach_step: "reachable ps0 s \<Longrightarrow> enabled s ev \<Longrightarrow> reachable ps0 (editor_step s ev)"

text \<open>
  The shape of the states reached from a sequence that is empty or a polygon: either
  every sequence in the state is empty and no node is dragged, or every one has at least
  three points.
\<close>

definition shape_inv :: "editor \<Rightarrow> bool" where
  "shape_inv s \<longleftrightarrow>
     (points s = [] \<and> list_all (\<lambda>h. h = []) (history s) \<and> dragIdx s = None)
   \<or> (3 \<le> length (points s) \<and> list_all (\<lambda>h. 3 \<le> length h) (history s))"

text \<open>No coordinate is \<open>NaN\<close> (the only value the JSON copy of a snapshot changes).\<close>

definition no_nan :: "Point list \<Rightarrow> bool" where
  "no_nan ps = list_all (\<lambda>p. pt_x p \<noteq> NaN \<and> pt_y p \<noteq> NaN) ps"

subsection \<open>Concrete editor inputs\<close>

definition triangle :: "Point list" where
  "triangle = [\<lparr>pt_x = Num 0, pt_y = Num 0, pt_type = Corner\<rparr>,
               \<lparr>pt_x = Num 10, pt_y = Num 0, pt_type = Corner\<rparr>,
               \<lparr>pt_x = Num 10, pt_y = Num 10, pt_type = Corner\<rparr>]"


definition quad :: "Point list" where
  "quad = [\<lparr>pt_x = Num 0, pt_y = Num 0, pt_type = Corner\<rparr>,
           \<lparr>pt_x = Num 10, pt_y = Num 0, pt_type = Corner\<rparr>,
           \<lparr>pt_x = Num 10, pt_y = Num 10, pt_type = Corner\<rparr>,
           \<lparr>pt_x = Num 0, pt_y = Num 10, pt_type = Corner\<rparr>]"

section \<open>The viewport transform (GlyphEditor.tsx and CharacterExtractor.tsx)\<close>

text \<open>
  The state \<open>{x, y, scale}\<close> of the extractor; the editor calls the third field \<open>k\<close>.
  A screen point is \<open>model * scale + (x, y)\<close>. The numbers are binary64 values in the
  source and real numbers here: rounding, infinities and \<open>NaN\<close> are outside the model.
\<close>

record transform =
  tr_x :: real
  tr_y :: real
  scale :: real

text \<open>handleZoom, the same in both components (the zoom buttons pass 0.9, 1.1 or 1.2).\<close>

definition handleZoom :: "real \<Rightarrow> transform \<Rightarrow> transform" where
  "handleZoom factor t = t\<lparr>scale := max 0.1 (min 10 (scale t * factor))\<rparr>"

text \<open>
  handleFitScreen of the editor; the effect that runs when a glyph is opened sets the same
  transform. The argument is \<open>None\<close> when \<open>svgRef.current\<close> is not set, otherwise the
  container's client width and height; \<open>gw\<close> and \<open>gh\<close> are the glyph's width and height.
\<close>

definition handleFitScreen :: "(real \<times> real) option \<Rightarrow> real \<Rightarrow> real \<Rightarrow> transform \<Rightarrow> transform" where
  "handleFitScreen container gw gh t =
     (case container of
        None \<Rightarrow> t
      | Some (containerW, containerH) \<Rightarrow>
          (let sc = min (containerW / (gw + 40)) (min (containerH / (gh + 40)) 2)
           in \<lparr>tr_x = (containerW - gw * sc) / 2, tr_y = (containerH - gh * sc) / 2,
               scale = sc\<rparr>))"

text \<open>
  resetView of the extractor. The argument is \<open>None\<close> when the container or the image
  element is missing, otherwise the container's client size and the image's natural size.
\<close>

definition resetView :: "(real \<times> real \<times> real \<times> real) option \<Rightarrow> transform \<Rightarrow> transform" where
  "resetView refs t =
     (case refs of
        None \<Rightarrow> t
      | Some (containerW, containerH, imgW, imgH) \<Rightarrow>
          (let sc = min (containerW / imgW) (min (containerH / imgH) 1)
           in \<lparr>tr_x = (containerW - imgW * sc) / 2, tr_y = (containerH - imgH * sc) / 2,
               scale = sc\<rparr>))"

text \<open>
  The state update of handleWheel for a given scale factor and pointer position relative
  to the container. The editor writes \<open>(mouseX - prev.x) * (newK / prev.k)\<close>, the
  extractor names the quotient \<open>scaleRatio\<close> first.
\<close>

definition wheel_update :: "real \<Rightarrow> real \<Rightarrow> real \<Rightarrow> transform \<Rightarrow> transform" where
  "wheel_update scaleFactor mouseX mouseY prev =
     (let newScale = max 0.1 (min 10 (scale prev * scaleFactor));
          scaleRatio = newScale / scale prev
      in \<lparr>tr_x = mouseX - (mouseX - tr_x prev) * scaleRatio,
          tr_y = mouseY - (mouseY - tr_y prev) * scaleRatio,
          scale = newScale\<rparr>)"

text \<open>
  handleWheel: the factor is 0.9 for a positive \<open>deltaY\<close> and 1.1 otherwise; without a
  bounding rectangle (\<open>None\<close>) the transform is kept.
\<close>

definition handleWheel :: "real \<Rightarrow> real \<Rightarrow> real \<Rightarrow> (real \<times> real) option \<Rightarrow> transform \<Rightarrow> transform" where
  "handleWheel deltaY clientX clientY rect prev =
     (case rect of
        None \<Rightarrow> prev
      | Some (rleft, rtop) \<Rightarrow>
          wheel_update (if deltaY > 0 then 0.9 else 1.1) (clientX - rleft) (clientY - rtop) prev)"

text \<open>Panning in the editor (handleMouseMove while \<open>isPanning\<close>): the pointer's delta is added.\<close>

definition pan :: "real \<Rightarrow> real \<Rightarrow> transform \<Rightarrow> transform" where
  "pan dx dy t = t\<lparr>tr_x := tr_x t + dx, tr_y := tr_y t + dy\<rparr>"

text \<open>Panning in the extractor: the pointer position minus the offset taken at mouse down.\<close>

definition pan_to :: "real \<Rightarrow> real \<Rightarrow> real \<Rightarrow> real \<Rightarrow> transform \<Rightarrow> transform" where
  "pan_to clientX clientY startX startY t = t\<lparr>tr_x := clientX - startX, tr_y := clientY - startY\<rparr>"


subsection \<open>Concrete transforms\<close>

definition view0 :: transform where
  "view0 = \<lparr>tr_x = 0, tr_y = 0, scale = 1\<rparr>"


section \<open>Raster sampling and contour tracing (CharacterExtractor.tsx)\<close>

text \<open>
  A pixel position is the pair \<open>(x, y)\<close> of the source's object \<open>{x, y}\<close>; positions
  next to the border have a negative or too large coordinate, so they are integers. The
  image data is the list of its bytes, four per pixel, row by row.
\<close>

type_synonym pixel = "int \<times> int"

text \<open>
  isPixelOn. The height of the raster is \<open>data.length / (4 * width)\<close>; a read beyond the
  end of the data gives \<open>undefined\<close>, the brightness is then \<open>NaN\<close> and the comparison
  false. The brightness \<open>0.34 r + 0.5 g + 0.16 b\<close> is computed exactly here, in binary64
  in the source: the two agree unless the exact brightness is within rounding distance
  of the threshold.
\<close>

definition isPixelOn :: "nat list \<Rightarrow> int \<Rightarrow> int \<Rightarrow> int \<Rightarrow> rat \<Rightarrow> bool" where
  "isPixelOn data width x y threshold =
     (if x < 0 \<or> x \<ge> width \<or> y < 0
         \<or> rat_of_int y \<ge> rat_of_nat (length data) / rat_of_int (4 * width)
      then False
      else (let idx = nat ((y * width + x) * 4)
            in if idx + 2 < length data
               then 0.34 * rat_of_nat (data ! idx) + 0.5 * rat_of_nat (data ! (idx + 1))
                      + 0.16 * rat_of_nat (data ! (idx + 2)) < threshold
               else False))"

text \<open>The radial order N, NE, E, SE, S, SW, W, NW of the array \<open>offsets\<close>.\<close>

definition offsets :: "(int \<times> int) list" where
  "offsets = [(0, -1), (1, -1), (1, 0), (1, 1), (0, 1), (-1, 1), (-1, 0), (-1, -1)]"

definition shift :: "pixel \<Rightarrow> nat \<Rightarrow> pixel" where
  "shift p k = (fst p + fst (offsets ! k), snd p + snd (offsets ! k))"

text \<open>The first \<open>k\<close> below 8 whose offset leads from \<open>p\<close> to \<open>b\<close>; 0 when there is none.\<close>

definition startIndex :: "pixel \<Rightarrow> pixel \<Rightarrow> nat" where
  "startIndex p b = (case find (\<lambda>k. shift p k = b) [0..<8] of None \<Rightarrow> 0 | Some k \<Rightarrow> k)"

text \<open>
  The scan of the eight neighbours of \<open>p\<close>, clockwise from the one after \<open>b\<close>: the first
  neighbour that is on becomes \<open>nextP\<close>, the neighbour scanned just before it \<open>nextB\<close>.
  \<open>None\<close> when no neighbour is on (\<open>nextP\<close> stays \<open>null\<close>).
\<close>

definition scan_neighbours :: "nat list \<Rightarrow> int \<Rightarrow> rat \<Rightarrow> pixel \<Rightarrow> pixel \<Rightarrow> (pixel \<times> pixel) option" where
  "scan_neighbours data w threshold p b =
     (case find (\<lambda>i. let idx = (startIndex p b + 1 + i) mod 8
                      in isPixelOn data w (fst (shift p idx)) (snd (shift p idx)) threshold)
                [0..<8] of
        None \<Rightarrow> None
      | Some i \<Rightarrow>
          (let idx = (startIndex p b + 1 + i) mod 8;
               prevIdx = (idx + 8 - 1) mod 8
           in Some (shift p idx, shift p prevIdx)))"

text \<open>
  The variables of the \<open>do ... while\<close> loop. The set \<open>visited\<close> is written and never read
  and is left out.
\<close>

record tracer =
  cur_p :: pixel
  cur_b :: pixel
  steps :: int
  traced :: "pixel list"

text \<open>
  One run of the loop body followed by the loop test
  \<open>(p.x !== start.x || p.y !== start.y) && steps < maxSteps\<close>. The isolated-pixel
  \<open>break\<close> leaves \<open>p\<close>, \<open>b\<close> and \<open>steps\<close> as they are.
\<close>

function trace_loop :: "nat list \<Rightarrow> int \<Rightarrow> rat \<Rightarrow> pixel \<Rightarrow> int \<Rightarrow> tracer \<Rightarrow> tracer" where
  "trace_loop data w threshold start maxSteps s =
     (let pts = traced s @ [cur_p s]
      in case scan_neighbours data w threshold (cur_p s) (cur_b s) of
           None \<Rightarrow> s\<lparr>traced := pts\<rparr>
         | Some (nextP, nextB) \<Rightarrow>
             (let s' = \<lparr>cur_p = nextP, cur_b = nextB, steps = steps s + 1, traced = pts\<rparr>
              in if nextP \<noteq> start \<and> steps s' < maxSteps
                 then trace_loop data w threshold start maxSteps s'
                 else s'))"
  by pat_completeness auto
termination
  by (relation "measure (\<lambda>(data, w, threshold, start, maxSteps, s). nat (maxSteps - steps s))")
     auto

declare trace_loop.simps [simp del]

text \<open>The raster scan order of the two \<open>for\<close> loops: rows top to bottom, left to right.\<close>

definition scan_order :: "int \<Rightarrow> int \<Rightarrow> pixel list" where
  "scan_order w h = concat (map (\<lambda>y. map (\<lambda>x. (x, y)) [0..w - 1]) [0..h - 1])"

text \<open>
  The tracing part of vectoriseSelection: the first pixel that is on, in scan order, starts
  the walk with the pixel to its left as backtrack; only this first blob is traced.
  Without a pixel that is on, \<open>points\<close> stays empty.
\<close>

definition trace_start :: "nat list \<Rightarrow> int \<Rightarrow> int \<Rightarrow> rat \<Rightarrow> pixel option" where
  "trace_start data w h threshold =
     find (\<lambda>(x, y). isPixelOn data w x y threshold) (scan_order w h)"

definition trace_points :: "nat list \<Rightarrow> int \<Rightarrow> int \<Rightarrow> rat \<Rightarrow> pixel list" where
  "trace_points data w h threshold =
     (case trace_start data w h threshold of
        None \<Rightarrow> []
      | Some (x, y) \<Rightarrow>
          traced (trace_loop data w threshold (x, y) (w * h * 2)
                    \<lparr>cur_p = (x, y), cur_b = (x - 1, y), steps = 0, traced = []\<rparr>))"

text \<open>
  The collinearity pass. \<open>prev\<close> is the last point kept; a point is looked at only while
  a next point exists, so the last point of the trace is not tested.
\<close>

fun simplify_loop :: "pixel \<Rightarrow> pixel list \<Rightarrow> pixel list" where
  "simplify_loop prev (cur # nxt # rest) =
     (let dx1 = fst cur - fst prev; dy1 = snd cur - snd prev;
          dx2 = fst nxt - fst cur; dy2 = snd nxt - snd cur
      in if dx1 * dy2 \<noteq> dy1 * dx2
         then cur # simplify_loop cur (nxt # rest)
         else simplify_loop prev (nxt # rest))"
| "simplify_loop prev rest = []"

text \<open>The first point, the interior points kept, then the last point of the trace.\<close>

definition simplify_collinear :: "pixel list \<Rightarrow> pixel list" where
  "simplify_collinear pts =
     (case pts of
        [] \<Rightarrow> []
      | p0 # rest \<Rightarrow> p0 # simplify_loop p0 rest @ [pts ! (length pts - 1)])"

section \<open>Numbers in template literals\<close>

text \<open>The decimal digits of a natural number, as \<open>toString\<close> writes them.\<close>

fun show_nat :: "nat \<Rightarrow> string" where
  "show_nat n = (if n < 10 then [''0123456789'' ! n]
                 else show_nat (n div 10) @ [''0123456789'' ! (n mod 10)])"

declare show_nat.simps [simp del]

text \<open>An integer-valued number below \<open>10^21\<close> in a template literal: sign and digits.\<close>

definition show_int :: "int \<Rightarrow> string" where
  "show_int i = (if i < 0 then CHR ''-'' # show_nat (nat (- i)) else show_nat (nat i))"

section \<open>The glyph record and the extraction (types.ts, CharacterExtractor.tsx)\<close>

record VectorGlyph =
  g_id :: string
  g_svgPath :: string
  g_width :: int
  g_height :: int
  g_name :: string

record BoundingBox =
  bb_x :: rat
  bb_y :: rat
  bb_width :: rat
  bb_height :: rat

text \<open>\<open>M x y\<close> for the first point, \<open>L x y\<close> for each further one, then \<open>Z\<close>; empty for two points or fewer.\<close>

definition svg_of_pixels :: "pixel list \<Rightarrow> string" where
  "svg_of_pixels simplified =
     (if length simplified > 2
      then ''M'' @ show_int (fst (simplified ! 0)) @ '' '' @ show_int (snd (simplified ! 0))
           @ concat (map (\<lambda>p. ''L'' @ show_int (fst p) @ '' '' @ show_int (snd p)) (tl simplified))
           @ ''Z''
      else '''')"

text \<open>\<open>s.slice(-4)\<close>: the last four characters.\<close>

definition slice_last4 :: "string \<Rightarrow> string" where
  "slice_last4 s = drop (length s - 4) s"

text \<open>
  vectoriseSelection from the image data on: trace, simplify, build the path; \<open>None\<close> is
  the \<open>return\<close> on an empty path, before any glyph is built. \<open>now\<close> is the value of
  \<open>Date.now()\<close>, taken to be the same in the two calls that build the id and the name.
\<close>

definition vectorise_raster :: "nat list \<Rightarrow> int \<Rightarrow> int \<Rightarrow> rat \<Rightarrow> nat \<Rightarrow> VectorGlyph option" where
  "vectorise_raster data w h threshold now =
     (let simplified = simplify_collinear (trace_points data w h threshold);
          svgPath = svg_of_pixels simplified
      in if svgPath = [] then None
         else Some \<lparr>g_id = show_nat now, g_svgPath = svgPath, g_width = w, g_height = h,
                    g_name = ''Glyph '' @ slice_last4 (show_nat now)\<rparr>)"

text \<open>
  vectoriseSelection as a whole. The result is the glyph handed to \<open>onGlyphCreated\<close>
  (\<open>None\<close>: the callback is not called) and the selection afterwards. \<open>page\<close> is \<open>None\<close>
  when the container, the image element or the 2d context is missing; otherwise it gives
  the two display-to-natural scale factors (not negative) and, for a canvas size, the
  image data the browser draws into it. On a canvas without pixels \<open>getImageData\<close>
  throws, and nothing after it runs.
\<close>

definition vectoriseSelection ::
  "BoundingBox option \<Rightarrow> (rat \<times> rat \<times> (int \<Rightarrow> int \<Rightarrow> nat list)) option \<Rightarrow> rat \<Rightarrow> nat
     \<Rightarrow> VectorGlyph option \<times> BoundingBox option" where
  "vectoriseSelection selection page threshold now =
     (case selection of
        None \<Rightarrow> (None, selection)
      | Some sel \<Rightarrow>
          (if bb_width sel < 5 \<or> bb_height sel < 5 then (None, selection)
           else (case page of
                   None \<Rightarrow> (None, selection)
                 | Some (scaleX, scaleY, getImageData) \<Rightarrow>
                     (let w = \<lfloor>bb_width sel * scaleX\<rfloor>;
                          h = \<lfloor>bb_height sel * scaleY\<rfloor>
                      in if w = 0 \<or> h = 0 then (None, selection)
                         else (case vectorise_raster (getImageData w h) w h threshold now of
                                 None \<Rightarrow> (None, selection)
                               | Some glyph \<Rightarrow> (Some glyph, None))))))"

subsection \<open>Concrete rasters\<close>

text \<open>
  The image data of a \<open>w\<close> by \<open>h\<close> canvas that is opaque black where \<open>ink\<close> holds and
  opaque white elsewhere.
\<close>

definition paint :: "(int \<Rightarrow> int \<Rightarrow> bool) \<Rightarrow> int \<Rightarrow> int \<Rightarrow> nat list" where
  "paint ink w h =
     concat (map (\<lambda>(x, y). if ink x y then [0, 0, 0, 255] else [255, 255, 255, 255])
                 (scan_order w h))"

text \<open>The filled 4 by 4 square whose top left pixel is \<open>(a, b)\<close>.\<close>

definition in_square :: "int \<Rightarrow> int \<Rightarrow> int \<Rightarrow> int \<Rightarrow> bool" where
  "in_square a b x y \<longleftrightarrow> a \<le> x \<and> x \<le> a + 3 \<and> b \<le> y \<and> y \<le> b + 3"

text \<open>A single black pixel in the middle of a 3 by 3 canvas, and no black pixel at all.\<close>

definition dot_ink :: "int \<Rightarrow> int \<Rightarrow> bool" where
  "dot_ink x y \<longleftrightarrow> x = 1 \<and> y = 1"

definition no_ink :: "int \<Rightarrow> int \<Rightarrow> bool" where
  "no_ink x y \<longleftrightarrow> False"

text \<open>A selection of 6 by 6 display pixels.\<close>

definition drag_box :: BoundingBox where
  "drag_box = \<lparr>bb_x = 0, bb_y = 0, bb_width = 6, bb_height = 6\<rparr>"

section \<open>Path descriptions (GlyphEditor.tsx)\<close>

text \<open>
  Strings are lists of ASCII characters. \<open>[a-zA-Z]\<close> is \<open>is_letter\<close>, \<open>\<bsol>s\<close> the six ASCII
  white space characters, \<open>[\<bsol>s,]\<close> a separator.
\<close>

definition is_letter :: "char \<Rightarrow> bool" where
  "is_letter c \<longleftrightarrow> c \<in> set ''abcdefghijklmnopqrstuvwxyzABCDEFGHIJKLMNOPQRSTUVWXYZ''"

definition is_space :: "char \<Rightarrow> bool" where
  "is_space c \<longleftrightarrow> c \<in> set [CHR 0x09, CHR 0x0A, CHR 0x0B, CHR 0x0C, CHR 0x0D, CHR '' '']"

definition is_sep :: "char \<Rightarrow> bool" where
  "is_sep c \<longleftrightarrow> is_space c \<or> c = CHR '',''"

definition is_digit :: "char \<Rightarrow> bool" where
  "is_digit c \<longleftrightarrow> c \<in> set ''0123456789''"

text \<open>
  \<open>d.match(/[a-zA-Z][^a-zA-Z]*/g)\<close>: every letter starts a match that runs up to the next
  letter; what precedes the first letter is skipped. No match (\<open>null\<close>) is the empty list.
\<close>

fun match_commands :: "string \<Rightarrow> string list" where
  "match_commands [] = []"
| "match_commands (c # cs) =
     (if is_letter c then (c # takeWhile (\<lambda>c. \<not> is_letter c) cs) # match_commands cs
      else match_commands cs)"

definition trim :: "string \<Rightarrow> string" where
  "trim s = rev (dropWhile is_space (rev (dropWhile is_space s)))"

text \<open>
  \<open>s.split(/[\<bsol>s,]+/)\<close>: the pieces between maximal runs of separators; a separator at
  either end leaves an empty piece there, and the empty string gives one empty piece.
\<close>

fun split_seps :: "string \<Rightarrow> string list" where
  "split_seps [] = [[]]"
| "split_seps (c # cs) =
     (if is_sep c
      then (if cs \<noteq> [] \<and> is_sep (hd cs) then split_seps cs else [] # split_seps cs)
      else (case split_seps cs of
              [] \<Rightarrow> [[c]]
            | t # ts \<Rightarrow> (c # t) # ts))"

text \<open>The value of a string of decimal digits.\<close>

definition digit_val :: "char \<Rightarrow> nat" where
  "digit_val c = length (takeWhile (\<lambda>d. d \<noteq> c) ''0123456789'')"

definition digits_val :: "string \<Rightarrow> nat" where
  "digits_val s = foldl (\<lambda>acc c. 10 * acc + digit_val c) 0 s"

text \<open>
  \<open>Number(s)\<close> on a piece of a command: such a piece has no letter and no white space,
  so it is a number only as an optional sign, digits and at most one point with a digit
  on one side of it; the empty piece is 0 and every other piece is \<open>NaN\<close>. The value is
  the exact decimal value (the runtime rounds it to binary64).
\<close>

definition js_Number :: "string \<Rightarrow> jsnum" where
  "js_Number s =
     (if s = [] then Num 0
      else (let neg = (hd s = CHR ''-'');
                body = (if hd s = CHR ''-'' \<or> hd s = CHR ''+'' then tl s else s);
                ip = takeWhile is_digit body;
                rest = dropWhile is_digit body;
                fp = tl rest;
                sign = (if neg then - 1 else 1)
            in if rest = [] then (if ip = [] then NaN else Num (sign * rat_of_nat (digits_val ip)))
               else if hd rest = CHR ''.'' \<and> list_all is_digit fp \<and> (ip \<noteq> [] \<or> fp \<noteq> [])
               then Num (sign * (rat_of_nat (digits_val ip)
                                  + rat_of_nat (digits_val fp) / 10 ^ length fp))
               else NaN))"

text \<open>
  parsePath. \<open>coords[0]\<close> always exists; \<open>coords[1]\<close> is \<open>undefined\<close> when the command has a
  single piece. Commands other than M and L add no point.
\<close>

definition parse_command :: "string \<Rightarrow> Point list" where
  "parse_command cmd =
     (let type = hd cmd;
          coords = map js_Number (split_seps (trim (tl cmd)))
      in if type = CHR ''M'' \<or> type = CHR ''L''
         then [\<lparr>pt_x = coords ! 0,
                pt_y = (if 1 < length coords then coords ! 1 else Undefined),
                pt_type = Corner\<rparr>]
         else [])"

definition parsePath :: "string \<Rightarrow> Point list" where
  "parsePath d = concat (map parse_command (match_commands d))"

text \<open>
  A positive number in a template literal, after Number::toString of ECMAScript: with
  \<open>k\<close> significant digits \<open>ds\<close> and the decimal point after \<open>n\<close> of them, the number is
  written plainly for \<open>-6 < n \<le> 21\<close> and with an exponent otherwise. The digits are those
  of the exact value; a rational that is no finite decimal is no binary64 value.
\<close>

fun frac_digits :: "nat \<Rightarrow> int \<Rightarrow> nat \<Rightarrow> nat option" where
  "frac_digits 0 d e = None"
| "frac_digits (Suc fuel) d e = (if d dvd 10 ^ e then Some e else frac_digits fuel d (Suc e))"

definition show_positive :: "rat \<Rightarrow> string" where
  "show_positive q =
     (let m = fst (quotient_of q); d = snd (quotient_of q)
      in case frac_digits 1100 d 0 of
           None \<Rightarrow> ''NaN''
         | Some e \<Rightarrow>
             (let ds0 = show_nat (nat (m * 10 ^ e div d));
                  z = length (takeWhile (\<lambda>c. c = CHR ''0'') (rev ds0));
                  ds = take (length ds0 - z) ds0;
                  k = int (length ds);
                  n = int (length ds0) - int e
              in if k \<le> n \<and> n \<le> 21 then ds @ replicate (nat (n - k)) CHR ''0''
                 else if 0 < n \<and> n \<le> 21 then take (nat n) ds @ ''.'' @ drop (nat n) ds
                 else if - 6 < n \<and> n \<le> 0 then ''0.'' @ replicate (nat (- n)) CHR ''0'' @ ds
                 else (if k = 1 then ds else take 1 ds @ ''.'' @ drop 1 ds)
                      @ ''e'' @ (if n - 1 < 0 then ''-'' else ''+'') @ show_nat (nat \<bar>n - 1\<bar>)))"

text \<open>A coordinate in a template literal.\<close>

fun js_toString :: "jsnum \<Rightarrow> string" where
  "js_toString (Num q) =
     (if q = 0 then ''0'' else if q < 0 then CHR ''-'' # show_positive (- q) else show_positive q)"
| "js_toString NaN = ''NaN''"
| "js_toString Undefined = ''undefined''"
| "js_toString Null = ''null''"

text \<open>
  pointsToPath. The loop runs over every index and appends the line to the next point,
  cyclically, so the last line leads back to the first point; the two branches on the
  point types append the same text.
\<close>

definition line_to :: "Point \<Rightarrow> Point \<Rightarrow> string" where
  "line_to cur nxt =
     (if pt_type cur = Smooth \<or> pt_type nxt = Smooth
      then '' L'' @ js_toString (pt_x nxt) @ '' '' @ js_toString (pt_y nxt)
      else '' L'' @ js_toString (pt_x nxt) @ '' '' @ js_toString (pt_y nxt))"

definition pointsToPath :: "Point list \<Rightarrow> string" where
  "pointsToPath ps =
     (if length ps = 0 then ''''
      else ''M'' @ js_toString (pt_x (ps ! 0)) @ '' '' @ js_toString (pt_y (ps ! 0))
           @ concat (map (\<lambda>i. line_to (ps ! i) (ps ! ((i + 1) mod length ps))) [0..<length ps])
           @ ''Z'')"

subsection \<open>Points that survive writing and reading\<close>

text \<open>A piece that \<open>split\<close> and \<open>match\<close> leave whole: not empty, no letter, no separator.\<close>

definition clean :: "string \<Rightarrow> bool" where
  "clean s \<longleftrightarrow> s \<noteq> [] \<and> list_all (\<lambda>c. \<not> is_letter c \<and> \<not> is_sep c) s"

text \<open>The text of a point in a path description: its two coordinates and a space between.\<close>

definition tokstr :: "Point \<Rightarrow> string" where
  "tokstr p = js_toString (pt_x p) @ '' '' @ js_toString (pt_y p)"

definition printable :: "Point \<Rightarrow> bool" where
  "printable p \<longleftrightarrow> clean (js_toString (pt_x p)) \<and> clean (js_toString (pt_y p))"

text \<open>The point that parsePath builds from the text of a point.\<close>

definition reparse :: "Point \<Rightarrow> Point" where
  "reparse p = \<lparr>pt_x = js_Number (js_toString (pt_x p)),
                 pt_y = js_Number (js_toString (pt_y p)), pt_type = Corner\<rparr>"

text \<open>An integer-valued number below \<open>10^21\<close> in absolute value.\<close>

definition is_int :: "jsnum \<Rightarrow> bool" where
  "is_int v = (case v of Num q \<Rightarrow> rat_of_int \<lfloor>q\<rfloor> = q \<and> \<bar>q\<bar> < 10 ^ 21 | _ \<Rightarrow> False)"

definition int_point :: "Point \<Rightarrow> bool" where
  "int_point p \<longleftrightarrow> is_int (pt_x p) \<and> is_int (pt_y p)"

section \<open>Properties of the edit history\<close>

lemma points_saveHistory: "points (saveHistory s) = points s"
  by (simp add: saveHistory_def)

lemma history_saveHistory:
  "history (saveHistory s) = drop (length (history s) - 10) (history s) @ [json_copy (points s)]"
  by (simp add: saveHistory_def)


lemma length_json_copy: "length (json_copy ps) = length ps"
  by (simp add: json_copy_def)









section \<open>Lengths after the structural edits\<close>

lemma filter_index_enumerate_remove:
  "map snd (filter (\<lambda>(i, _). i \<noteq> idx) (enumerate n xs)) =
     (if n \<le> idx \<and> idx < n + length xs then take (idx - n) xs @ drop (Suc (idx - n)) xs else xs)"
proof (induction xs arbitrary: n)
  case Nil
  then show ?case by simp
next
  case (Cons a xs)
  show ?case
  proof (cases "n = idx")
    case True
    then show ?thesis using Cons [of "Suc n"] by simp
  next
    case False
    show ?thesis
    proof (cases "n < idx \<and> idx < Suc n + length xs")
      case True
      then have "idx - n = Suc (idx - Suc n)" by arith
      then show ?thesis using Cons [of "Suc n"] True False by simp
    next
      case F2: False
      then show ?thesis using Cons [of "Suc n"] False by auto
    qed
  qed
qed

lemma filter_index_remove:
  "idx < length xs \<Longrightarrow> filter_index (\<lambda>i. i \<noteq> idx) xs = take idx xs @ drop (Suc idx) xs"
  by (simp add: filter_index_def filter_index_enumerate_remove)

lemma length_filter_enumerate_even:
  "length (filter (\<lambda>(i, _). i mod 2 = 0) (enumerate n xs)) =
     (if even n then (length xs + 1) div 2 else length xs div 2)"
proof (induction xs arbitrary: n)
  case Nil
  then show ?case by simp
next
  case (Cons a xs)
  have "even (Suc n) = (\<not> even n)" by simp
  then show ?case using Cons [of "Suc n"]
    by (cases "even n") (simp_all add: even_iff_mod_2_eq_zero)
qed

lemma length_filter_index_even:
  "length (filter_index (\<lambda>i. i mod 2 = 0) xs) = (length xs + 1) div 2"
  by (simp add: filter_index_def length_filter_enumerate_even)

lemma length_smooth_edge: "length (smooth_edge a b) = 2"
  by (simp add: smooth_edge_def)

lemma length_concat_const:
  "(\<And>x. x \<in> set xs \<Longrightarrow> length (f x) = c) \<Longrightarrow> length (concat (map f xs)) = c * length xs"
  by (induction xs) auto

lemma length_smoothPoints:
  "length (smoothPoints ps) = (if length ps < 3 then length ps else 2 * length ps)"
  using length_concat_const [of "[0..<length ps]" "\<lambda>i. smooth_edge (ps ! i) (ps ! ((i + 1) mod length ps))" 2]
  by (simp add: smoothPoints_def length_smooth_edge)

lemma length_drag_write: "length ps \<le> length (drag_write ps i lx ly)"
  by (simp add: drag_write_def)

section \<open>The point-count invariant\<close>

lemma list_all_drop: "list_all P xs \<Longrightarrow> list_all P (drop n xs)"
  by (induction xs arbitrary: n) (auto simp: drop_Cons split: nat.splits)

lemma list_all_butlast: "list_all P xs \<Longrightarrow> list_all P (butlast xs)"
  by (induction xs) auto

lemma shape_inv_saveHistory: "shape_inv s \<Longrightarrow> shape_inv (saveHistory s)"
  unfolding shape_inv_def
  by (auto simp: saveHistory_def json_copy_def list_all_drop)

lemma shape_inv_opened: "ps = [] \<or> 3 \<le> length ps \<Longrightarrow> shape_inv (opened ps)"
  by (auto simp: shape_inv_def opened_def)

lemma shape_inv_undo: "shape_inv s \<Longrightarrow> shape_inv (handleUndo s)"
proof (cases "history s = []")
  case True
  assume "shape_inv s"
  then show ?thesis using True by (simp add: handleUndo_def)
next
  case False
  assume inv: "shape_inv s"
  have last: "history s ! (length (history s) - 1) \<in> set (history s)"
    using False by simp
  have bl: "\<And>P. list_all P (history s) \<Longrightarrow> list_all P (butlast (history s))"
    by (rule list_all_butlast)
  show ?thesis
    using inv False last bl unfolding shape_inv_def handleUndo_def
    by (auto simp: list_all_iff)
qed

lemma shape_inv_step: "shape_inv s \<Longrightarrow> enabled s ev \<Longrightarrow> shape_inv (editor_step s ev)"
proof (cases ev)
  case (NodeMouseDown i)
  assume "shape_inv s" "enabled s ev"
  then show ?thesis using NodeMouseDown shape_inv_saveHistory [of s]
    by (auto simp: handleNodeMouseDown_def shape_inv_def points_saveHistory)
next
  case CanvasMouseDown
  assume "shape_inv s"
  then show ?thesis using CanvasMouseDown by (simp add: handleCanvasMouseDown_def shape_inv_def)
next
  case (MouseMove lx ly)
  assume "shape_inv s"
  then show ?thesis using MouseMove length_drag_write [of "points s" _ "Num lx" "Num ly"]
    by (auto simp: handleMouseMove_def shape_inv_def split: option.splits intro: order_trans)
next
  case MouseUp
  assume "shape_inv s"
  then show ?thesis using MouseUp by (auto simp: handleMouseUp_def shape_inv_def)
next
  case (DoubleClickNode i)
  assume "shape_inv s" "enabled s ev"
  then show ?thesis using DoubleClickNode shape_inv_saveHistory [of s]
    by (auto simp: handleDoubleClickNode_def shape_inv_def points_saveHistory Let_def
          filter_index_remove)
next
  case SmoothClick
  assume inv: "shape_inv s"
  have e: "smoothPoints [] = []" by (simp add: smoothPoints_def)
  have l: "3 \<le> length (points s) \<Longrightarrow> 3 \<le> length (smoothPoints (points s))"
    by (simp add: length_smoothPoints)
  show ?thesis using SmoothClick shape_inv_saveHistory [OF inv] inv e l
    by (auto simp: handleSmooth_def shape_inv_def points_saveHistory Let_def)
next
  case SimplifyClick
  assume "shape_inv s"
  then show ?thesis using SimplifyClick shape_inv_saveHistory [of s]
    by (auto simp: handleSimplify_def shape_inv_def points_saveHistory Let_def
          length_filter_index_even)
next
  case UndoClick
  assume "shape_inv s"
  then show ?thesis using UndoClick by (simp add: shape_inv_undo)
qed

lemma reachable_shape_inv:
  "reachable ps0 s \<Longrightarrow> ps0 = [] \<or> 3 \<le> length ps0 \<Longrightarrow> shape_inv s"
  by (induction rule: reachable.induct) (auto intro: shape_inv_opened shape_inv_step)

text \<open>
  C7. A double click on a node of a sequence of exactly 3 points leaves the sequence
  unchanged; on a sequence of 4 or more points it removes exactly the node clicked, so the
  sequence is one point shorter. Hence every state the editor reaches from a sequence that
  is empty or has at least 3 points has a point sequence that is empty or has at least 3
  points.
\<close>

theorem delete_point_invariant:
  "(length (points s) = 3 \<longrightarrow> points (handleDoubleClickNode idx s) = points s)
 \<and> (4 \<le> length (points s') \<and> idx' < length (points s') \<longrightarrow>
      points (handleDoubleClickNode idx' s') = take idx' (points s') @ drop (Suc idx') (points s')
      \<and> length (points (handleDoubleClickNode idx' s')) = length (points s') - 1)
 \<and> ((ps0 = [] \<or> 3 \<le> length ps0) \<and> reachable ps0 t \<longrightarrow>
      points t = [] \<or> 3 \<le> length (points t))"
proof (intro conjI impI)
  assume "length (points s) = 3"
  then show "points (handleDoubleClickNode idx s) = points s"
    by (simp add: handleDoubleClickNode_def Let_def points_saveHistory)
next
  assume a: "4 \<le> length (points s') \<and> idx' < length (points s')"
  then show eq: "points (handleDoubleClickNode idx' s') = take idx' (points s') @ drop (Suc idx') (points s')"
    by (simp add: handleDoubleClickNode_def Let_def points_saveHistory filter_index_remove)
  show "length (points (handleDoubleClickNode idx' s')) = length (points s') - 1"
    unfolding eq using a by auto
next
  assume "(ps0 = [] \<or> 3 \<le> length ps0) \<and> reachable ps0 t"
  then have "shape_inv t" using reachable_shape_inv by blast
  then show "points t = [] \<or> 3 \<le> length (points t)"
    by (auto simp: shape_inv_def)
qed

theorem delete_point_invariant_witness:
  "length (points (opened triangle)) = 3
 \<and> points (handleDoubleClickNode 1 (opened triangle)) = points (opened triangle)
 \<and> 4 \<le> length (points (opened quad)) \<and> 1 < length (points (opened quad))
 \<and> length (points (handleDoubleClickNode 1 (opened quad))) = 3
 \<and> 3 \<le> length triangle
 \<and> reachable triangle (editor_step (opened triangle) SmoothClick)
 \<and> (points (editor_step (opened triangle) SmoothClick) = []
      \<or> 3 \<le> length (points (editor_step (opened triangle) SmoothClick)))"
proof -
  have h1: "length (points (opened triangle)) = 3" by (simp add: opened_def triangle_def)
  have h2: "4 \<le> length (points (opened quad)) \<and> 1 < length (points (opened quad))"
    by (simp add: opened_def quad_def)
  have h3: "3 \<le> length triangle" by (simp add: triangle_def)
  have h4: "reachable triangle (editor_step (opened triangle) SmoothClick)"
    by (rule reach_step [OF reach_init]) simp
  note T = delete_point_invariant [of "opened triangle" 1 "opened quad" 1 triangle
      "editor_step (opened triangle) SmoothClick"]
  from T h1 have c1: "points (handleDoubleClickNode 1 (opened triangle)) = points (opened triangle)"
    by blast
  from T h2 have "length (points (handleDoubleClickNode 1 (opened quad))) = length (points (opened quad)) - 1"
    by blast
  then have c2: "length (points (handleDoubleClickNode 1 (opened quad))) = 3"
    by (simp add: opened_def quad_def)
  from T h3 h4 have c3: "points (editor_step (opened triangle) SmoothClick) = []
      \<or> 3 \<le> length (points (editor_step (opened triangle) SmoothClick))"
    by blast
  show ?thesis using h1 h2 h3 h4 c1 c2 c3 by blast
qed

section \<open>Refused edits and the history\<close>

lemma json_num_id: "v \<noteq> NaN \<Longrightarrow> json_num v = v"
  by (cases v) simp_all

lemma json_copy_no_nan: "no_nan ps \<Longrightarrow> json_copy ps = ps"
  by (induction ps) (simp_all add: no_nan_def json_copy_def json_num_id)

lemma undo_after_save:
  "points (handleUndo (saveHistory s)) = json_copy (points s)
   \<and> history (handleUndo (saveHistory s)) = drop (length (history s) - 10) (history s)
   \<and> dragIdx (handleUndo (saveHistory s)) = dragIdx s
   \<and> isPanning (handleUndo (saveHistory s)) = isPanning s"
proof -
  define h where "h = drop (length (history s) - 10) (history s)"
  have e: "saveHistory s = s\<lparr>history := h @ [json_copy (points s)]\<rparr>"
    by (simp add: saveHistory_def h_def)
  have "(h @ [json_copy (points s)]) ! (length (h @ [json_copy (points s)]) - 1) = json_copy (points s)"
    by simp
  then show ?thesis unfolding e h_def [symmetric]
    by (simp add: handleUndo_def)
qed

text \<open>
  C10. A double click on a sequence of exactly 3 points and a simplify on a sequence of
  at most 6 points leave the points unchanged and still push a snapshot. The following
  undo pops that snapshot: the history is the trimmed one again and the points are the
  JSON copy of the points before, which is the same sequence when no coordinate is
  \<open>NaN\<close>.
\<close>

theorem refused_edit_consumes_history:
  "(length (points s) = 3 \<longrightarrow>
      points (handleDoubleClickNode idx s) = points s
    \<and> history (handleDoubleClickNode idx s)
        = drop (length (history s) - 10) (history s) @ [json_copy (points s)]
    \<and> points (handleUndo (handleDoubleClickNode idx s)) = json_copy (points s)
    \<and> history (handleUndo (handleDoubleClickNode idx s))
        = drop (length (history s) - 10) (history s)
    \<and> (no_nan (points s) \<longrightarrow> points (handleUndo (handleDoubleClickNode idx s)) = points s))
 \<and> (length (points s') \<le> 6 \<longrightarrow>
      points (handleSimplify s') = points s'
    \<and> history (handleSimplify s')
        = drop (length (history s') - 10) (history s') @ [json_copy (points s')]
    \<and> points (handleUndo (handleSimplify s')) = json_copy (points s')
    \<and> history (handleUndo (handleSimplify s'))
        = drop (length (history s') - 10) (history s')
    \<and> (no_nan (points s') \<longrightarrow> points (handleUndo (handleSimplify s')) = points s'))"
proof (intro conjI impI)
  assume l: "length (points s) = 3"
  then have e: "handleDoubleClickNode idx s = saveHistory s"
    by (simp add: handleDoubleClickNode_def Let_def)
  show "points (handleDoubleClickNode idx s) = points s"
    unfolding e by (rule points_saveHistory)
  show "history (handleDoubleClickNode idx s)
        = drop (length (history s) - 10) (history s) @ [json_copy (points s)]"
    unfolding e by (rule history_saveHistory)
  show "points (handleUndo (handleDoubleClickNode idx s)) = json_copy (points s)"
    unfolding e using undo_after_save by blast
  show "history (handleUndo (handleDoubleClickNode idx s))
        = drop (length (history s) - 10) (history s)"
    unfolding e using undo_after_save by blast
  assume "no_nan (points s)"
  then show "points (handleUndo (handleDoubleClickNode idx s)) = points s"
    unfolding e using undo_after_save [of s] by (simp add: json_copy_no_nan)
next
  assume l: "length (points s') \<le> 6"
  then have e: "handleSimplify s' = saveHistory s'"
    by (simp add: handleSimplify_def Let_def)
  show "points (handleSimplify s') = points s'"
    unfolding e by (rule points_saveHistory)
  show "history (handleSimplify s')
        = drop (length (history s') - 10) (history s') @ [json_copy (points s')]"
    unfolding e by (rule history_saveHistory)
  show "points (handleUndo (handleSimplify s')) = json_copy (points s')"
    unfolding e using undo_after_save by blast
  show "history (handleUndo (handleSimplify s'))
        = drop (length (history s') - 10) (history s')"
    unfolding e using undo_after_save by blast
  assume "no_nan (points s')"
  then show "points (handleUndo (handleSimplify s')) = points s'"
    unfolding e using undo_after_save [of s'] by (simp add: json_copy_no_nan)
qed

theorem refused_edit_consumes_history_witness:
  "length (points (opened triangle)) = 3 \<and> length (points (opened quad)) \<le> 6
   \<and> no_nan (points (opened triangle)) \<and> no_nan (points (opened quad))
   \<and> history (handleDoubleClickNode 2 (opened triangle)) = [triangle]
   \<and> handleUndo (handleDoubleClickNode 2 (opened triangle)) = opened triangle
   \<and> history (handleSimplify (opened quad)) = [quad]
   \<and> handleUndo (handleSimplify (opened quad)) = opened quad"
proof -
  have h1: "length (points (opened triangle)) = 3" by (simp add: opened_def triangle_def)
  have h2: "length (points (opened quad)) \<le> 6" by (simp add: opened_def quad_def)
  have h3: "no_nan (points (opened triangle))" by (simp add: opened_def triangle_def no_nan_def)
  have h4: "no_nan (points (opened quad))" by (simp add: opened_def quad_def no_nan_def)
  note T = refused_edit_consumes_history [of "opened triangle" 2 "opened quad"]
  have j1: "json_copy triangle = triangle" using h3 by (simp add: json_copy_no_nan opened_def)
  have j2: "json_copy quad = quad" using h4 by (simp add: json_copy_no_nan opened_def)
  from T h1 have a: "history (handleDoubleClickNode 2 (opened triangle))
        = drop (length (history (opened triangle)) - 10) (history (opened triangle))
          @ [json_copy (points (opened triangle))]" by blast
  from T h1 h3 have b: "points (handleUndo (handleDoubleClickNode 2 (opened triangle)))
        = points (opened triangle)" by blast
  from T h1 have c: "history (handleUndo (handleDoubleClickNode 2 (opened triangle)))
        = drop (length (history (opened triangle)) - 10) (history (opened triangle))" by blast
  from T h2 have a': "history (handleSimplify (opened quad))
        = drop (length (history (opened quad)) - 10) (history (opened quad))
          @ [json_copy (points (opened quad))]" by blast
  from T h2 h4 have b': "points (handleUndo (handleSimplify (opened quad)))
        = points (opened quad)" by blast
  from T h2 have c': "history (handleUndo (handleSimplify (opened quad)))
        = drop (length (history (opened quad)) - 10) (history (opened quad))" by blast
  have d: "handleUndo (handleDoubleClickNode 2 (opened triangle)) = opened triangle"
    using b c by (simp add: opened_def handleUndo_def handleDoubleClickNode_def saveHistory_def Let_def)
  have d': "handleUndo (handleSimplify (opened quad)) = opened quad"
    using b' c' by (simp add: opened_def handleUndo_def handleSimplify_def saveHistory_def Let_def)
  have e: "history (handleDoubleClickNode 2 (opened triangle)) = [triangle]"
    using a j1 by (simp add: opened_def)
  have e': "history (handleSimplify (opened quad)) = [quad]"
    using a' j2 by (simp add: opened_def)
  show ?thesis using h1 h2 h3 h4 d d' e e' by blast
qed

section \<open>The viewport transform\<close>

lemma scale_wheel_update: "scale (wheel_update f mx my t) = max 0.1 (min 10 (scale t * f))"
  by (simp add: wheel_update_def Let_def)




text \<open>
  C4 as stated fails: resetView on a 400 x 300 container and a 5000 x 4000 image sets the
  scale to 0.075, below 0.1.
\<close>

theorem reset_view_scale_counterexample:
  "scale (resetView (Some (400, 300, 5000, 4000)) view0) < 0.1"
  by (simp add: resetView_def Let_def)

text \<open>The editor's fit-to-screen does the same on a 5000 x 4000 glyph.\<close>

theorem fit_screen_scale_below_bound:
  "scale (handleFitScreen (Some (400, 300)) 5000 4000 view0) < 0.1"
  by (simp add: handleFitScreen_def Let_def)

text \<open>
  C4, amended. The scale is in [0.1, 10] after every zoom button and wheel zoom, whatever
  the transform before; panning and a fit or reset without its elements leave the scale
  unchanged; fit-to-screen and reset-view set the scale to the minimum of the two
  container-to-content ratios and the cap (2 in the editor, 1 in the extractor), which
  is at most the cap and is not clamped from below.
\<close>

theorem scale_after_operations:
  "0.1 \<le> scale (handleZoom f t) \<and> scale (handleZoom f t) \<le> 10
 \<and> 0.1 \<le> scale (wheel_update f mx my t) \<and> scale (wheel_update f mx my t) \<le> 10
 \<and> 0.1 \<le> scale (handleWheel deltaY cx cy (Some rect) t)
 \<and> scale (handleWheel deltaY cx cy (Some rect) t) \<le> 10
 \<and> scale (handleWheel deltaY cx cy None t) = scale t
 \<and> scale (pan dx dy t) = scale t
 \<and> scale (pan_to cx cy x0 y0 t) = scale t
 \<and> scale (handleFitScreen None gw gh t) = scale t
 \<and> scale (resetView None t) = scale t
 \<and> (0 \<le> gw \<and> 0 \<le> gh \<longrightarrow>
      scale (handleFitScreen (Some (cw, ch)) gw gh t) = min (cw / (gw + 40)) (min (ch / (gh + 40)) 2)
    \<and> scale (handleFitScreen (Some (cw, ch)) gw gh t) \<le> 2)
 \<and> (0 < iw \<and> 0 < ih \<longrightarrow>
      scale (resetView (Some (cw, ch, iw, ih)) t) = min (cw / iw) (min (ch / ih) 1)
    \<and> scale (resetView (Some (cw, ch, iw, ih)) t) \<le> 1)"
  by (cases rect)
     (simp add: handleZoom_def wheel_update_def handleWheel_def pan_def pan_to_def
        handleFitScreen_def resetView_def Let_def min_le_iff_disj)

theorem scale_after_operations_witness:
  "(0::real) \<le> 5000 \<and> (0::real) \<le> 4000 \<and> (0::real) < 5000 \<and> (0::real) < 4000
 \<and> scale (handleFitScreen (Some (400, 300)) 5000 4000 view0) = 15 / 202
 \<and> scale (resetView (Some (400, 300, 5000, 4000)) view0) = 3 / 40
 \<and> scale (handleZoom 0.9 (resetView (Some (400, 300, 5000, 4000)) view0)) = 0.1"
proof -
  have h: "(0::real) \<le> 5000 \<and> (0::real) \<le> 4000" by simp
  have h': "(0::real) < 5000 \<and> (0::real) < 4000" by simp
  note T = scale_after_operations [where f = "0.9"
      and t = "resetView (Some (400, 300, 5000, 4000)) view0"
      and gw = 5000 and gh = 4000 and cw = 400 and ch = 300 and iw = 5000 and ih = 4000]
  from T h have "scale (handleFitScreen (Some (400, 300)) 5000 4000
      (resetView (Some (400, 300, 5000, 4000)) view0))
      = min (400 / (5000 + 40)) (min (300 / (4000 + 40)) 2)" by blast
  then have a: "scale (handleFitScreen (Some (400, 300)) 5000 4000 view0) = 15 / 202"
    by (simp add: handleFitScreen_def Let_def)
  from T h' have "scale (resetView (Some (400, 300, 5000, 4000))
      (resetView (Some (400, 300, 5000, 4000)) view0))
      = min (400 / 5000) (min (300 / 4000) 1)" by blast
  then have b: "scale (resetView (Some (400, 300, 5000, 4000)) view0) = 3 / 40"
    by (simp add: resetView_def Let_def)
  from T have "0.1 \<le> scale (handleZoom 0.9 (resetView (Some (400, 300, 5000, 4000)) view0))"
    by blast
  moreover have "scale (handleZoom 0.9 (resetView (Some (400, 300, 5000, 4000)) view0)) \<le> 0.1"
    by (simp add: handleZoom_def resetView_def Let_def)
  ultimately have c: "scale (handleZoom 0.9 (resetView (Some (400, 300, 5000, 4000)) view0)) = 0.1"
    by simp
  show ?thesis using h h' a b c by blast
qed

section \<open>The contour-tracing loop\<close>

lemma trace_loop_isolated:
  "scan_neighbours data w thr (cur_p s) (cur_b s) = None \<Longrightarrow>
   trace_loop data w thr start maxSteps s = s\<lparr>traced := traced s @ [cur_p s]\<rparr>"
  by (subst trace_loop.simps) simp

lemma trace_loop_continue:
  "scan_neighbours data w thr (cur_p s) (cur_b s) = Some (nextP, nextB) \<Longrightarrow>
   nextP \<noteq> start \<Longrightarrow> steps s + 1 < maxSteps \<Longrightarrow>
   trace_loop data w thr start maxSteps s =
     trace_loop data w thr start maxSteps
       \<lparr>cur_p = nextP, cur_b = nextB, steps = steps s + 1, traced = traced s @ [cur_p s]\<rparr>"
  by (subst trace_loop.simps) simp

lemma trace_loop_stop:
  "scan_neighbours data w thr (cur_p s) (cur_b s) = Some (nextP, nextB) \<Longrightarrow>
   nextP = start \<or> maxSteps \<le> steps s + 1 \<Longrightarrow>
   trace_loop data w thr start maxSteps s =
       \<lparr>cur_p = nextP, cur_b = nextB, steps = steps s + 1, traced = traced s @ [cur_p s]\<rparr>"
  by (subst trace_loop.simps) auto

lemma trace_loop_bound:
  "int (length (traced (trace_loop data w thr start maxSteps s)))
     \<le> int (length (traced s)) + max 1 (maxSteps - steps s)
   \<and> (cur_p (trace_loop data w thr start maxSteps s) = start
      \<or> scan_neighbours data w thr (cur_p (trace_loop data w thr start maxSteps s))
           (cur_b (trace_loop data w thr start maxSteps s)) = None
      \<or> maxSteps \<le> steps (trace_loop data w thr start maxSteps s))"
proof (induction data w thr start maxSteps s rule: trace_loop.induct)
  case (1 data w thr start maxSteps s)
  show ?case
  proof (cases "scan_neighbours data w thr (cur_p s) (cur_b s)")
    case None
    then show ?thesis by (simp add: trace_loop_isolated)
  next
    case (Some nb)
    obtain nextP nextB where nb: "nb = (nextP, nextB)" by (cases nb)
    have sc: "scan_neighbours data w thr (cur_p s) (cur_b s) = Some (nextP, nextB)"
      using Some nb by simp
    show ?thesis
    proof (cases "nextP \<noteq> start \<and> steps s + 1 < maxSteps")
      case True
      let ?s' = "\<lparr>cur_p = nextP, cur_b = nextB, steps = steps s + 1, traced = traced s @ [cur_p s]\<rparr>"
      have e: "trace_loop data w thr start maxSteps s = trace_loop data w thr start maxSteps ?s'"
        using sc True by (simp add: trace_loop_continue)
      have IH: "int (length (traced (trace_loop data w thr start maxSteps ?s')))
                 \<le> int (length (traced ?s')) + max 1 (maxSteps - steps ?s')
         \<and> (cur_p (trace_loop data w thr start maxSteps ?s') = start
            \<or> scan_neighbours data w thr (cur_p (trace_loop data w thr start maxSteps ?s'))
                 (cur_b (trace_loop data w thr start maxSteps ?s')) = None
            \<or> maxSteps \<le> steps (trace_loop data w thr start maxSteps ?s'))"
        using "1.IH" [OF refl sc refl refl] True by simp
      show ?thesis unfolding e using IH True by auto
    next
      case False
      then have "nextP = start \<or> maxSteps \<le> steps s + 1" by auto
      then show ?thesis using sc by (auto simp: trace_loop_stop)
    qed
  qed
qed


lemma isPixelOn_in_width: "isPixelOn data w x y thr \<Longrightarrow> 0 \<le> x \<and> x < w"
  by (auto simp: isPixelOn_def split: if_splits)

lemma in_scan_order: "(x, y) \<in> set (scan_order w h) \<longleftrightarrow> 0 \<le> x \<and> x < w \<and> 0 \<le> y \<and> y < h"
  by (auto simp: scan_order_def image_iff)

lemma trace_start_Some:
  "trace_start data w h thr = Some (x, y) \<Longrightarrow>
   isPixelOn data w x y thr \<and> 0 \<le> x \<and> x < w \<and> 0 \<le> y \<and> y < h"
proof -
  assume a: "trace_start data w h thr = Some (x, y)"
  then obtain i where i: "i < length (scan_order w h)" "scan_order w h ! i = (x, y)"
    and on: "isPixelOn data w x y thr"
    unfolding trace_start_def find_Some_iff by auto
  from i have "(x, y) \<in> set (scan_order w h)" by (metis nth_mem)
  then show ?thesis using on by (simp add: in_scan_order)
qed

lemma trace_start_None:
  "trace_start data w h thr = None \<longleftrightarrow>
   list_all (\<lambda>(x, y). \<not> isPixelOn data w x y thr) (scan_order w h)"
  by (auto simp: trace_start_def find_None_iff list_all_iff)

lemma length_trace_points: "int (length (trace_points data w h thr)) \<le> max 0 (w * h * 2)"
proof (cases "trace_start data w h thr")
  case None
  then show ?thesis by (simp add: trace_points_def)
next
  case (Some p)
  obtain x y where p: "p = (x, y)" by (cases p)
  from Some p trace_start_Some [of data w h thr x y]
  have "1 \<le> w" "1 \<le> h" by auto
  then have "1 * 1 \<le> w * h" by (intro mult_mono) auto
  then have big: "max 1 (w * h * 2 - 0) = w * h * 2" by simp
  let ?s = "\<lparr>cur_p = (x, y), cur_b = (x - 1, y), steps = 0, traced = []\<rparr>"
  have "int (length (traced (trace_loop data w thr (x, y) (w * h * 2) ?s)))
          \<le> int (length (traced ?s)) + max 1 (w * h * 2 - steps ?s)"
    using trace_loop_bound by blast
  then have "int (length (traced (trace_loop data w thr (x, y) (w * h * 2) ?s))) \<le> w * h * 2"
    using big by simp
  then show ?thesis using Some p by (simp add: trace_points_def)
qed

text \<open>
  C8. The tracing loop is a total function: its recursion is accepted with the measure
  \<open>maxSteps - steps\<close>. It runs its body at most \<open>max 1 (maxSteps - steps)\<close> times, and when
  it stops the current pixel is the start pixel, or no neighbour of the current pixel is
  on, or \<open>steps\<close> has reached \<open>maxSteps\<close>. For a raster of width \<open>w\<close> and height \<open>h\<close> the
  trace therefore has at most \<open>2 * w * h\<close> points.
\<close>

theorem tracing_terminates:
  "int (length (traced (trace_loop data w thr start maxSteps s)))
     \<le> int (length (traced s)) + max 1 (maxSteps - steps s)
   \<and> (cur_p (trace_loop data w thr start maxSteps s) = start
      \<or> scan_neighbours data w thr (cur_p (trace_loop data w thr start maxSteps s))
           (cur_b (trace_loop data w thr start maxSteps s)) = None
      \<or> maxSteps \<le> steps (trace_loop data w thr start maxSteps s))
   \<and> int (length (trace_points data w' h thr')) \<le> max 0 (w' * h * 2)"
  using trace_loop_bound [of data w thr start maxSteps s] length_trace_points [of data w' h thr']
  by blast

section \<open>Extraction without a polygon\<close>

lemma svg_of_pixels_empty: "svg_of_pixels ps = [] \<longleftrightarrow> length ps \<le> 2"
  by (auto simp: svg_of_pixels_def)

lemma vectorise_raster_None:
  "vectorise_raster data w h thr now = None \<longleftrightarrow>
   length (simplify_collinear (trace_points data w h thr)) \<le> 2"
  by (simp add: vectorise_raster_def Let_def svg_of_pixels_empty)

lemma trace_points_no_foreground:
  "list_all (\<lambda>(x, y). \<not> isPixelOn data w x y thr) (scan_order w h) \<Longrightarrow>
   trace_points data w h thr = []"
  using trace_start_None [of data w h thr] by (simp add: trace_points_def)

text \<open>
  C9. When the traced and simplified sequence has at most 2 points the extraction builds
  no glyph; in particular when no pixel of the raster is on, the trace being empty then.
  vectoriseSelection then does not call the callback and leaves the selection as it is,
  as whenever it produces no glyph.
\<close>

theorem no_glyph_without_polygon:
  "(length (simplify_collinear (trace_points data w h thr)) \<le> 2 \<longrightarrow>
      vectorise_raster data w h thr now = None)
 \<and> (list_all (\<lambda>(x, y). \<not> isPixelOn data w x y thr) (scan_order w h) \<longrightarrow>
      trace_points data w h thr = [] \<and> vectorise_raster data w h thr now = None)
 \<and> (length (simplify_collinear (trace_points
         (grab \<lfloor>bb_width sel * sx\<rfloor> \<lfloor>bb_height sel * sy\<rfloor>)
         \<lfloor>bb_width sel * sx\<rfloor> \<lfloor>bb_height sel * sy\<rfloor> thr)) \<le> 2 \<longrightarrow>
      vectoriseSelection (Some sel) (Some (sx, sy, grab)) thr now = (None, Some sel))
 \<and> (fst (vectoriseSelection selection page thr now) = None \<longrightarrow>
      snd (vectoriseSelection selection page thr now) = selection)"
proof (intro conjI impI)
  assume "length (simplify_collinear (trace_points data w h thr)) \<le> 2"
  then show "vectorise_raster data w h thr now = None" by (simp add: vectorise_raster_None)
next
  assume a: "list_all (\<lambda>(x, y). \<not> isPixelOn data w x y thr) (scan_order w h)"
  then show e: "trace_points data w h thr = []" by (rule trace_points_no_foreground)
  show "vectorise_raster data w h thr now = None"
    by (simp add: vectorise_raster_None e simplify_collinear_def)
next
  assume "length (simplify_collinear (trace_points
         (grab \<lfloor>bb_width sel * sx\<rfloor> \<lfloor>bb_height sel * sy\<rfloor>)
         \<lfloor>bb_width sel * sx\<rfloor> \<lfloor>bb_height sel * sy\<rfloor> thr)) \<le> 2"
  then have "vectorise_raster (grab \<lfloor>bb_width sel * sx\<rfloor> \<lfloor>bb_height sel * sy\<rfloor>)
         \<lfloor>bb_width sel * sx\<rfloor> \<lfloor>bb_height sel * sy\<rfloor> thr now = None"
    by (simp add: vectorise_raster_None)
  then show "vectoriseSelection (Some sel) (Some (sx, sy, grab)) thr now = (None, Some sel)"
    by (simp add: vectoriseSelection_def Let_def)
next
  assume "fst (vectoriseSelection selection page thr now) = None"
  then show "snd (vectoriseSelection selection page thr now) = selection"
    by (auto simp: vectoriseSelection_def Let_def split: option.splits if_splits prod.splits)
qed

section \<open>Painted rasters\<close>

lemma nth_concat_blocks:
  "(\<And>x. x \<in> set xs \<Longrightarrow> length (f x) = n) \<Longrightarrow> j < length xs \<Longrightarrow> c < n \<Longrightarrow>
   concat (map f xs) ! (n * j + c) = f (xs ! j) ! c"
proof (induction xs arbitrary: j)
  case Nil
  then show ?case by simp
next
  case (Cons a xs)
  show ?case
  proof (cases j)
    case 0
    then show ?thesis using Cons.prems by (simp add: nth_append)
  next
    case (Suc k)
    have "n * j + c = length (f a) + (n * k + c)" using Suc Cons.prems(1) [of a] by simp
    then have "concat (map f (a # xs)) ! (n * j + c) = concat (map f xs) ! (n * k + c)"
      by (simp add: nth_append)
    then show ?thesis using Cons.IH [of k] Cons.prems Suc by simp
  qed
qed

lemma length_concat_blocks:
  "(\<And>x. x \<in> set xs \<Longrightarrow> length (f x) = n) \<Longrightarrow> length (concat (map f xs)) = n * length xs"
  by (induction xs) auto

lemma length_scan_order: "length (scan_order w h) = nat w * nat h"
proof -
  have "length (scan_order w h) = nat w * length [0..h - 1]"
    unfolding scan_order_def by (rule length_concat_blocks) auto
  then show ?thesis by (simp add: mult.commute)
qed

lemma nth_scan_order:
  assumes "0 \<le> x" "x < w" "0 \<le> y" "y < h"
  shows "scan_order w h ! (nat w * nat y + nat x) = (x, y)"
proof -
  have "concat (map (\<lambda>y. map (\<lambda>x. (x, y)) [0..w - 1]) [0..h - 1]) ! (nat w * nat y + nat x)
        = map (\<lambda>x. (x, [0..h - 1] ! nat y)) [0..w - 1] ! nat x"
    by (rule nth_concat_blocks) (use assms in auto)
  also have "\<dots> = (x, y)" using assms by simp
  finally show ?thesis by (simp add: scan_order_def)
qed

lemma cell_index_less:
  assumes "0 \<le> x" "x < w" "0 \<le> y" "y < h"
  shows "nat w * nat y + nat x < nat w * nat h"
proof -
  have "nat y + 1 \<le> nat h" using assms by linarith
  then have "nat w * (nat y + 1) \<le> nat w * nat h" by (rule mult_le_mono2)
  then have a: "nat w * nat y + nat w \<le> nat w * nat h" by (simp add: algebra_simps)
  have "nat x < nat w" using assms by linarith
  then show ?thesis using a by linarith
qed

lemma length_paint: "length (paint ink w h) = 4 * (nat w * nat h)"
proof -
  have "length (paint ink w h) = 4 * length (scan_order w h)"
    unfolding paint_def by (rule length_concat_blocks) auto
  then show ?thesis by (simp add: length_scan_order)
qed

lemma nth_paint:
  assumes "0 \<le> x" "x < w" "0 \<le> y" "y < h" "c < 4"
  shows "paint ink w h ! (4 * (nat w * nat y + nat x) + c)
         = (if ink x y then [0, 0, 0, 255] else [255, 255, 255, 255]) ! c"
proof -
  have lt: "nat w * nat y + nat x < length (scan_order w h)"
    using cell_index_less [of x w y h] assms by (simp add: length_scan_order)
  have "concat (map (\<lambda>(x, y). if ink x y then [0, 0, 0, 255] else [255, 255, 255, 255])
                 (scan_order w h)) ! (4 * (nat w * nat y + nat x) + c)
        = (\<lambda>(x, y). if ink x y then [0, 0, 0, 255] else [255, 255, 255, 255])
            (scan_order w h ! (nat w * nat y + nat x)) ! c"
    by (rule nth_concat_blocks) (use lt assms in auto)
  then show ?thesis using assms by (simp add: paint_def nth_scan_order)
qed

lemma isPixelOn_paint:
  "isPixelOn (paint ink w h) w x y 128 \<longleftrightarrow> 0 \<le> x \<and> x < w \<and> 0 \<le> y \<and> y < h \<and> ink x y"
proof (cases "0 \<le> x \<and> x < w \<and> 0 \<le> y")
  case False
  then show ?thesis by (auto simp: isPixelOn_def)
next
  case True
  then have w: "0 < w" by simp
  show ?thesis
  proof (cases "y < h")
    case False
    then have "0 \<le> h \<Longrightarrow> rat_of_nat (4 * (nat w * nat h)) / rat_of_int (4 * w) = rat_of_int h"
      using w by (simp add: field_simps)
    moreover have "h < 0 \<Longrightarrow> rat_of_nat (4 * (nat w * nat h)) / rat_of_int (4 * w) = 0"
      by simp
    ultimately have "rat_of_nat (length (paint ink w h)) / rat_of_int (4 * w) \<le> rat_of_int y"
      using False True unfolding length_paint by (cases "0 \<le> h") auto
    then show ?thesis using False by (simp add: isPixelOn_def)
  next
    case yh: True
    have h: "0 < h" using True yh by simp
    have q: "rat_of_nat (length (paint ink w h)) / rat_of_int (4 * w) = rat_of_int h"
      unfolding length_paint using w h by (simp add: field_simps)
    have idx: "nat ((y * w + x) * 4) = 4 * (nat w * nat y + nat x)"
      using True by (simp add: nat_add_distrib nat_mult_distrib mult.commute)
    have "nat w * nat y + nat x < nat w * nat h"
      using cell_index_less [of x w y h] True yh by blast
    moreover have "\<And>k m :: nat. k < m \<Longrightarrow> 4 * k + 2 < 4 * m" by arith
    ultimately have inr: "4 * (nat w * nat y + nat x) + 2 < length (paint ink w h)"
      unfolding length_paint by blast
    have n0: "paint ink w h ! (4 * (nat w * nat y + nat x)) = (if ink x y then 0 else 255)"
      using nth_paint [of x w y h 0 ink] True yh by simp
    have n1: "paint ink w h ! (4 * (nat w * nat y + nat x) + 1) = (if ink x y then 0 else 255)"
      using nth_paint [of x w y h 1 ink] True yh by simp
    have n2: "paint ink w h ! (4 * (nat w * nat y + nat x) + 2) = (if ink x y then 0 else 255)"
      using nth_paint [of x w y h 2 ink] True yh by simp
    show ?thesis
      unfolding isPixelOn_def q idx Let_def using True yh inr n0 n1 n2 by simp
  qed
qed

section \<open>The trace of a filled 4 by 4 square\<close>

lemma eight: "[0..<8] = [0, 1, 2, 3, 4, 5, 6, 7]"
  by code_simp

lemma trace_loop_step:
  "trace_loop data w thr start maxSteps s =
     (case scan_neighbours data w thr (cur_p s) (cur_b s) of
        None \<Rightarrow> s\<lparr>traced := traced s @ [cur_p s]\<rparr>
      | Some nb \<Rightarrow>
          (if fst nb \<noteq> start \<and> steps s + 1 < maxSteps
           then trace_loop data w thr start maxSteps
                  \<lparr>cur_p = fst nb, cur_b = snd nb, steps = steps s + 1,
                   traced = traced s @ [cur_p s]\<rparr>
           else \<lparr>cur_p = fst nb, cur_b = snd nb, steps = steps s + 1,
                 traced = traced s @ [cur_p s]\<rparr>))"
  by (subst trace_loop.simps) (simp add: Let_def split: option.splits prod.splits)

lemma square_scans:
  assumes H: "\<And>x y. isPixelOn data w x y 128 = in_square a b x y"
  shows "scan_neighbours data w 128 (a, b) (a - 1, b) = Some ((a + 1, b), (a + 1, b - 1))"
    and "scan_neighbours data w 128 (a + 1, b) (a + 1, b - 1) = Some ((a + 2, b), (a + 2, b - 1))"
    and "scan_neighbours data w 128 (a + 2, b) (a + 2, b - 1) = Some ((a + 3, b), (a + 3, b - 1))"
    and "scan_neighbours data w 128 (a + 3, b) (a + 3, b - 1) = Some ((a + 3, b + 1), (a + 4, b + 1))"
    and "scan_neighbours data w 128 (a + 3, b + 1) (a + 4, b + 1) = Some ((a + 3, b + 2), (a + 4, b + 2))"
    and "scan_neighbours data w 128 (a + 3, b + 2) (a + 4, b + 2) = Some ((a + 3, b + 3), (a + 4, b + 3))"
    and "scan_neighbours data w 128 (a + 3, b + 3) (a + 4, b + 3) = Some ((a + 2, b + 3), (a + 2, b + 4))"
    and "scan_neighbours data w 128 (a + 2, b + 3) (a + 2, b + 4) = Some ((a + 1, b + 3), (a + 1, b + 4))"
    and "scan_neighbours data w 128 (a + 1, b + 3) (a + 1, b + 4) = Some ((a, b + 3), (a, b + 4))"
    and "scan_neighbours data w 128 (a, b + 3) (a, b + 4) = Some ((a, b + 2), (a - 1, b + 2))"
    and "scan_neighbours data w 128 (a, b + 2) (a - 1, b + 2) = Some ((a, b + 1), (a - 1, b + 1))"
    and "scan_neighbours data w 128 (a, b + 1) (a - 1, b + 1) = Some ((a, b), (a - 1, b))"
  by (simp_all add: scan_neighbours_def startIndex_def shift_def offsets_def eight H
        in_square_def Let_def)


lemma find_append_None: "find P xs = None \<Longrightarrow> find P (xs @ ys) = find P ys"
  by (induction xs) (auto split: if_splits)

lemma find_concat_skip:
  "(\<And>r. r \<in> set rs \<Longrightarrow> find P (f r) = None) \<Longrightarrow>
   find P (concat (map f rs) @ ys) = find P ys"
  by (induction rs) (simp_all add: find_append_None)

lemma find_append_Some: "find P xs = Some v \<Longrightarrow> find P (xs @ ys) = Some v"
  by (induction xs) (auto split: if_splits)

lemma square_trace_start:
  assumes H: "\<And>x y. isPixelOn data w x y 128 = in_square a b x y"
    and "0 \<le> a" "a + 4 \<le> w" "0 \<le> b" "b + 4 \<le> h"
  shows "trace_start data w h 128 = Some (a, b)"
proof -
  let ?P = "\<lambda>(x, y). isPixelOn data w x y 128"
  let ?row = "\<lambda>y. map (\<lambda>x. (x, y)) [0..w - 1]"
  have rows: "[0..h - 1] = [0..b - 1] @ b # [b + 1..h - 1]"
    using assms by (intro upto_split3) auto
  have cols: "[0..w - 1] = [0..a - 1] @ a # [a + 1..w - 1]"
    using assms by (intro upto_split3) auto
  have above: "\<And>r. r \<in> set [0..b - 1] \<Longrightarrow> find ?P (?row r) = None"
    by (auto simp: find_None_iff H in_square_def)
  have left: "find ?P (map (\<lambda>x. (x, b)) [0..a - 1]) = None"
    by (auto simp: find_None_iff H in_square_def)
  have "find ?P (?row b) = Some (a, b)"
    unfolding cols map_append using left
    by (simp add: find_append_None H in_square_def)
  then have row_b: "find ?P (?row b @ concat (map ?row [b + 1..h - 1])) = Some (a, b)"
    by (rule find_append_Some)
  have "scan_order w h = concat (map ?row [0..b - 1]) @ (?row b @ concat (map ?row [b + 1..h - 1]))"
    unfolding scan_order_def rows by simp
  then have "find ?P (scan_order w h) = find ?P (?row b @ concat (map ?row [b + 1..h - 1]))"
    using find_concat_skip [of "[0..b - 1]" ?P ?row, OF above] by simp
  then show ?thesis unfolding trace_start_def using row_b by simp
qed

lemma square_trace_loop:
  assumes H: "\<And>x y. isPixelOn data w x y 128 = in_square a b x y" and M: "11 < M"
  shows "traced (trace_loop data w 128 (a, b) M
                   \<lparr>cur_p = (a, b), cur_b = (a - 1, b), steps = 0, traced = []\<rparr>) =
           [(a, b), (a + 1, b), (a + 2, b), (a + 3, b), (a + 3, b + 1), (a + 3, b + 2),
            (a + 3, b + 3), (a + 2, b + 3), (a + 1, b + 3), (a, b + 3), (a, b + 2), (a, b + 1)]"
  using M by (simp add: trace_loop_step square_scans [OF H])

lemma square_trace_points:
  assumes H: "\<And>x y. isPixelOn data w x y 128 = in_square a b x y"
    and "0 \<le> a" "a + 4 \<le> w" "0 \<le> b" "b + 4 \<le> h"
  shows "trace_points data w h 128 =
           [(a, b), (a + 1, b), (a + 2, b), (a + 3, b), (a + 3, b + 1), (a + 3, b + 2),
            (a + 3, b + 3), (a + 2, b + 3), (a + 1, b + 3), (a, b + 3), (a, b + 2), (a, b + 1)]"
proof -
  have "4 * 4 \<le> w * h" using assms by (intro mult_mono) auto
  then have big: "11 < w * h * 2" by linarith
  show ?thesis
    unfolding trace_points_def square_trace_start [OF assms]
    using square_trace_loop [OF H big] by simp
qed

lemma square_simplified:
  assumes H: "\<And>x y. isPixelOn data w x y 128 = in_square a b x y"
    and "0 \<le> a" "a + 4 \<le> w" "0 \<le> b" "b + 4 \<le> h"
  shows "simplify_collinear (trace_points data w h 128) =
           [(a, b), (a + 3, b), (a + 3, b + 3), (a, b + 3), (a, b + 1)]"
  unfolding square_trace_points [OF assms]
  by (simp add: simplify_collinear_def Let_def)
lemma isPixelOn_square_6: "isPixelOn (paint (in_square 1 1) 6 6) 6 x y 128 = in_square 1 1 x y"
  by (auto simp: isPixelOn_paint in_square_def)

text \<open>The glyph that the extraction builds for that square on a 6 by 6 canvas has five points.\<close>

lemma square_glyph_path:
  "map_option g_svgPath (vectorise_raster (paint (in_square 1 1) 6 6) 6 6 128 now)
     = Some ''M1 1L4 1L4 4L1 4L1 2Z''"
proof -
  have s: "simplify_collinear (trace_points (paint (in_square 1 1) 6 6) 6 6 128)
             = [(1, 1), (4, 1), (4, 4), (1, 4), (1, 2)]"
    using square_simplified [of "paint (in_square 1 1) 6 6" 6 1 1 6, OF isPixelOn_square_6]
    by simp
  have p: "svg_of_pixels [(1, 1), (4, 1), (4, 4), (1, 4), (1, 2)] = ''M1 1L4 1L4 4L1 4L1 2Z''"
    by code_simp
  show ?thesis by (simp add: vectorise_raster_def s p)
qed

text \<open>
  C2 as stated fails: on a 6 by 6 canvas with the black square at (1, 1) the simplified
  sequence does not have 4 points.
\<close>

theorem square_trace_counterexample:
  "length (simplify_collinear (trace_points (paint (in_square 1 1) 6 6) 6 6 128)) \<noteq> 4"
proof -
  have "(0::int) \<le> 1" "(1::int) + 4 \<le> 6" by simp_all
  then show ?thesis
    using square_simplified [of "paint (in_square 1 1) 6 6" 6 1 1 6, OF isPixelOn_square_6]
    by simp
qed

text \<open>
  C2, amended. For a raster whose pixels that are on at threshold 128 are exactly a filled
  4 by 4 square with top left pixel \<open>(a, b)\<close>, the collinearity pass leaves exactly 5 points:
  the four corner pixels in clockwise order from the top left, followed by the last pixel
  of the trace, the one just below the top left corner, which is kept without a test.
\<close>

theorem square_trace_five_points:
  assumes "\<And>x y. isPixelOn data w x y 128 = in_square a b x y"
    and "0 \<le> a" and "a + 4 \<le> w" and "0 \<le> b" and "b + 4 \<le> h"
  shows "simplify_collinear (trace_points data w h 128) =
           [(a, b), (a + 3, b), (a + 3, b + 3), (a, b + 3), (a, b + 1)]
       \<and> length (simplify_collinear (trace_points data w h 128)) = 5"
  using square_simplified [OF assms] by simp

theorem square_trace_five_points_witness:
  "(\<forall>x y. isPixelOn (paint (in_square 1 1) 6 6) 6 x y 128 = in_square 1 1 x y)
   \<and> (0::int) \<le> 1 \<and> (1::int) + 4 \<le> 6
   \<and> simplify_collinear (trace_points (paint (in_square 1 1) 6 6) 6 6 128) =
           [(1, 1), (4, 1), (4, 4), (1, 4), (1, 2)]"
proof -
  have h: "\<And>x y. isPixelOn (paint (in_square 1 1) 6 6) 6 x y 128 = in_square 1 1 x y"
    by (rule isPixelOn_square_6)
  have b: "(0::int) \<le> 1" "(1::int) + 4 \<le> 6" by simp_all
  from square_trace_five_points [OF h b(1) b(2) b(1) b(2)]
  have "simplify_collinear (trace_points (paint (in_square 1 1) 6 6) 6 6 128) =
           [(1, 1), (1 + 3, 1), (1 + 3, 1 + 3), (1, 1 + 3), (1, 1 + 1)]" by blast
  then show ?thesis using h b by simp
qed

section \<open>Rasters without a polygon\<close>

lemma dot_trace_points: "trace_points (paint dot_ink 3 3) 3 3 128 = [(1, 1)]"
proof -
  have on: "\<And>x y. isPixelOn (paint dot_ink 3 3) 3 x y 128 = (x = 1 \<and> y = 1)"
    by (auto simp: isPixelOn_paint dot_ink_def)
  have so: "scan_order 3 3 = [(0, 0), (1, 0), (2, 0), (0, 1), (1, 1), (2, 1), (0, 2), (1, 2), (2, 2)]"
    by code_simp
  have st: "trace_start (paint dot_ink 3 3) 3 3 128 = Some (1, 1)"
    by (simp add: trace_start_def so on)
  have sc: "scan_neighbours (paint dot_ink 3 3) 3 128 (1, 1) (0, 1) = None"
    by (simp add: scan_neighbours_def startIndex_def shift_def offsets_def eight on Let_def)
  show ?thesis
    by (simp add: trace_points_def st trace_loop_step sc)
qed

lemma blank_no_foreground:
  "list_all (\<lambda>(x, y). \<not> isPixelOn (paint no_ink 3 3) 3 x y 128) (scan_order 3 3)"
  by (simp add: list_all_iff isPixelOn_paint no_ink_def split_beta)

theorem no_glyph_without_polygon_witness:
  "length (simplify_collinear (trace_points (paint dot_ink 3 3) 3 3 128)) \<le> 2
   \<and> vectorise_raster (paint dot_ink 3 3) 3 3 128 0 = None
   \<and> list_all (\<lambda>(x, y). \<not> isPixelOn (paint no_ink 3 3) 3 x y 128) (scan_order 3 3)
   \<and> trace_points (paint no_ink 3 3) 3 3 128 = []
   \<and> vectoriseSelection (Some drag_box) (Some (1 / 2, 1 / 2, paint dot_ink)) 128 0
       = (None, Some drag_box)
   \<and> fst (vectoriseSelection None None 128 0) = None
   \<and> snd (vectoriseSelection None None 128 0) = None"
proof -
  have fl: "\<lfloor>bb_width drag_box * (1 / 2)\<rfloor> = 3" "\<lfloor>bb_height drag_box * (1 / 2)\<rfloor> = 3"
    by (simp_all add: drag_box_def)
  have h1: "length (simplify_collinear (trace_points (paint dot_ink 3 3) 3 3 128)) \<le> 2"
    by (simp add: dot_trace_points simplify_collinear_def)
  have h3: "length (simplify_collinear (trace_points
         (paint dot_ink \<lfloor>bb_width drag_box * (1 / 2)\<rfloor> \<lfloor>bb_height drag_box * (1 / 2)\<rfloor>)
         \<lfloor>bb_width drag_box * (1 / 2)\<rfloor> \<lfloor>bb_height drag_box * (1 / 2)\<rfloor> 128)) \<le> 2"
    unfolding fl by (rule h1)
  have h4: "fst (vectoriseSelection None None 128 0) = None"
    by (simp add: vectoriseSelection_def)
  note T = no_glyph_without_polygon [where data = "paint dot_ink 3 3" and w = 3 and h = 3
      and thr = 128 and now = 0 and grab = "paint dot_ink" and sel = drag_box
      and sx = "1 / 2" and sy = "1 / 2" and selection = None and page = None]
  note T' = no_glyph_without_polygon [where data = "paint no_ink 3 3" and w = 3 and h = 3
      and thr = 128 and now = 0 and grab = "paint dot_ink" and sel = drag_box
      and sx = "1 / 2" and sy = "1 / 2" and selection = None and page = None]
  from T h1 have c1: "vectorise_raster (paint dot_ink 3 3) 3 3 128 0 = None" by blast
  from T' blank_no_foreground have c2: "trace_points (paint no_ink 3 3) 3 3 128 = []" by blast
  from T h3 have c3: "vectoriseSelection (Some drag_box) (Some (1 / 2, 1 / 2, paint dot_ink)) 128 0
       = (None, Some drag_box)" by blast
  from T h4 have c4: "snd (vectoriseSelection None None 128 0) = None" by blast
  show ?thesis using h1 c1 blank_no_foreground c2 c3 h4 c4 by blast
qed

section \<open>Parsing and writing path descriptions\<close>

lemma takeWhile_append_stop:
  "ys = [] \<or> \<not> P (hd ys) \<Longrightarrow> takeWhile P (xs @ ys) = takeWhile P xs"
  by (induction xs) (auto simp: takeWhile_eq_Nil_iff)

lemma match_commands_append:
  "post = [] \<or> is_letter (hd post) \<Longrightarrow>
   match_commands (pre @ post) = match_commands pre @ match_commands post"
  by (induction pre) (simp_all add: takeWhile_append_stop)

lemma match_commands_no_letter:
  "list_all (\<lambda>c. \<not> is_letter c) args \<Longrightarrow> match_commands args = []"
  by (induction args) simp_all

lemma match_commands_single:
  "is_letter c \<Longrightarrow> list_all (\<lambda>c. \<not> is_letter c) args \<Longrightarrow>
   match_commands (c # args) = [c # args]"
  by (simp add: match_commands_no_letter list_all_iff)

lemma parsePath_append:
  "post = [] \<or> is_letter (hd post) \<Longrightarrow> parsePath (pre @ post) = parsePath pre @ parsePath post"
  by (simp add: parsePath_def match_commands_append)

text \<open>
  C6 as stated fails: parsePath has no failure result. On a path with a curve command it
  returns the point of the move command alone, without any report.
\<close>

theorem curve_command_counterexample:
  "parsePath ''M0 0C1 1 2 2 3 3Z'' = [\<lparr>pt_x = Num 0, pt_y = Num 0, pt_type = Corner\<rparr>]"
  by code_simp

text \<open>
  C6, amended. A command whose letter is neither M nor L is skipped together with its
  arguments, that is, the text up to the next letter: the result is the points parsed
  from the text before it followed by the points parsed from the text after it. No
  failure is reported.
\<close>

theorem unknown_command_skipped:
  assumes "is_letter c" and "c \<noteq> CHR ''M''" and "c \<noteq> CHR ''L''"
    and "list_all (\<lambda>c. \<not> is_letter c) args"
    and "post = [] \<or> is_letter (hd post)"
  shows "parsePath (pre @ c # args @ post) = parsePath pre @ parsePath post"
proof -
  have mc: "match_commands (c # args) = [c # args]"
    using assms(1,4) by (rule match_commands_single)
  have pc: "parse_command (c # args) = []"
    using assms(2,3) by (simp add: parse_command_def Let_def)
  have "parsePath (c # args) = []"
    unfolding parsePath_def mc by (simp add: pc)
  moreover have "parsePath ((c # args) @ post) = parsePath (c # args) @ parsePath post"
    using assms(5) by (rule parsePath_append)
  moreover have "parsePath (pre @ (c # args @ post)) = parsePath pre @ parsePath (c # args @ post)"
    using assms(1) by (intro parsePath_append) simp
  ultimately show ?thesis by simp
qed

theorem unknown_command_skipped_witness:
  "is_letter CHR ''C'' \<and> CHR ''C'' \<noteq> CHR ''M'' \<and> CHR ''C'' \<noteq> CHR ''L''
   \<and> list_all (\<lambda>c. \<not> is_letter c) ''1 1 2 2 3 3''
   \<and> is_letter (hd ''L5 5Z'')
   \<and> parsePath (''M0 0'' @ CHR ''C'' # ''1 1 2 2 3 3'' @ ''L5 5Z'')
       = [\<lparr>pt_x = Num 0, pt_y = Num 0, pt_type = Corner\<rparr>,
          \<lparr>pt_x = Num 5, pt_y = Num 5, pt_type = Corner\<rparr>]"
proof -
  have h1: "is_letter CHR ''C''" by code_simp
  have h2: "CHR ''C'' \<noteq> CHR ''M''" "CHR ''C'' \<noteq> CHR ''L''" by simp_all
  have h3: "list_all (\<lambda>c. \<not> is_letter c) ''1 1 2 2 3 3''" by code_simp
  have h4: "is_letter (hd ''L5 5Z'')" by code_simp
  then have h4': "''L5 5Z'' = [] \<or> is_letter (hd ''L5 5Z'')" by blast
  have p1: "parsePath ''M0 0'' = [\<lparr>pt_x = Num 0, pt_y = Num 0, pt_type = Corner\<rparr>]"
    by code_simp
  have p2: "parsePath ''L5 5Z'' = [\<lparr>pt_x = Num 5, pt_y = Num 5, pt_type = Corner\<rparr>]"
    by code_simp
  have "parsePath (''M0 0'' @ CHR ''C'' # ''1 1 2 2 3 3'' @ ''L5 5Z'')
        = parsePath ''M0 0'' @ parsePath ''L5 5Z''"
    using unknown_command_skipped [OF h1 h2 h3 h4'] .
  then show ?thesis using h1 h2 h3 h4 p1 p2 by simp
qed

subsection \<open>Digits and integers in text\<close>

lemma digit_char_props:
  assumes "d < 10"
  shows "is_digit (''0123456789'' ! d)" and "digit_val (''0123456789'' ! d) = d"
    and "\<not> is_letter (''0123456789'' ! d)" and "\<not> is_sep (''0123456789'' ! d)"
    and "''0123456789'' ! d \<noteq> CHR ''-''" and "''0123456789'' ! d \<noteq> CHR ''+''"
proof -
  from assms have "d \<in> {0, 1, 2, 3, 4, 5, 6, 7, 8, 9}" by auto
  then show "is_digit (''0123456789'' ! d)" and "digit_val (''0123456789'' ! d) = d"
    and "\<not> is_letter (''0123456789'' ! d)" and "\<not> is_sep (''0123456789'' ! d)"
    and "''0123456789'' ! d \<noteq> CHR ''-''" and "''0123456789'' ! d \<noteq> CHR ''+''"
    by (auto simp: is_digit_def digit_val_def is_letter_def is_sep_def is_space_def)
qed

lemma show_nat_digits: "list_all is_digit (show_nat n)"
proof (induction n rule: show_nat.induct)
  case (1 n)
  show ?case
  proof (cases "n < 10")
    case True
    then show ?thesis by (subst show_nat.simps) (simp add: digit_char_props)
  next
    case False
    then show ?thesis using 1
      by (subst show_nat.simps) (simp add: digit_char_props)
  qed
qed

lemma show_nat_nonempty: "show_nat n \<noteq> []"
  by (subst show_nat.simps) simp

lemma digits_val_snoc: "digits_val (s @ [c]) = 10 * digits_val s + digit_val c"
  by (simp add: digits_val_def)

lemma digits_val_show_nat: "digits_val (show_nat n) = n"
proof (induction n rule: show_nat.induct)
  case (1 n)
  show ?case
  proof (cases "n < 10")
    case True
    then show ?thesis
      by (subst show_nat.simps) (simp add: digits_val_def digit_char_props)
  next
    case False
    then have "digits_val (show_nat (n div 10)) = n div 10" using 1 by simp
    then show ?thesis using False
      by (subst show_nat.simps) (simp add: digits_val_snoc digit_char_props)
  qed
qed

lemma length_show_nat: "0 < k \<Longrightarrow> n < 10 ^ k \<Longrightarrow> length (show_nat n) \<le> k"
proof (induction n arbitrary: k rule: show_nat.induct)
  case (1 n)
  show ?case
  proof (cases "n < 10")
    case True
    then show ?thesis using 1(2) by (subst show_nat.simps) simp
  next
    case False
    then obtain j where k: "k = Suc j" using 1(2) by (cases k) auto
    have "j \<noteq> 0" using False 1(3) k by (cases j) auto
    moreover have "n div 10 < 10 ^ j" using 1(3) k by (simp add: less_mult_imp_div_less mult.commute)
    ultimately have "length (show_nat (n div 10)) \<le> j" using 1(1) [of j] False by simp
    then show ?thesis using False k by (subst show_nat.simps) simp
  qed
qed

lemma trailing_split:
  "take (length xs - length (takeWhile P (rev xs))) xs @ rev (takeWhile P (rev xs)) = xs"
proof -
  have "rev xs = takeWhile P (rev xs) @ dropWhile P (rev xs)" by simp
  then have "xs = rev (dropWhile P (rev xs)) @ rev (takeWhile P (rev xs))"
    by (metis rev_append rev_rev_ident)
  moreover have "length (rev (dropWhile P (rev xs))) = length xs - length (takeWhile P (rev xs))"
    by (metis length_rev length_append add_diff_cancel_left' takeWhile_dropWhile_id)
  ultimately show ?thesis
    by (metis append_eq_conv_conj)
qed

lemma takeWhile_eq_replicate:
  "takeWhile (\<lambda>x. x = c) ys = replicate (length (takeWhile (\<lambda>x. x = c) ys)) c"
  by (induction ys) auto

lemma trailing_zeros:
  "take (length xs - length (takeWhile (\<lambda>x. x = c) (rev xs))) xs
     @ replicate (length (takeWhile (\<lambda>x. x = c) (rev xs))) c = xs"
proof -
  have "rev (takeWhile (\<lambda>x. x = c) (rev xs))
        = replicate (length (takeWhile (\<lambda>x. x = c) (rev xs))) c"
    by (metis takeWhile_eq_replicate rev_replicate)
  then show ?thesis using trailing_split [of xs "\<lambda>x. x = c"] by simp
qed

lemma frac_digits_hit: "0 < fuel \<Longrightarrow> d dvd 10 ^ e \<Longrightarrow> frac_digits fuel d e = Some e"
  by (cases fuel) simp_all

lemma show_positive_int:
  assumes "0 < i" and "i < 10 ^ 21"
  shows "show_positive (rat_of_int i) = show_nat (nat i)"
proof -
  have len: "length (show_nat (nat i)) \<le> 21"
  proof (rule length_show_nat)
    show "(0::nat) < 21" by simp
    have "nat i < nat (10 ^ 21)" using assms by linarith
    then show "nat i < 10 ^ 21" by simp
  qed
  have fd: "frac_digits 1100 1 0 = Some 0" by (rule frac_digits_hit) simp_all
  define ds0 where "ds0 = show_nat (nat i)"
  define z where "z = length (takeWhile (\<lambda>c. c = CHR ''0'') (rev ds0))"
  have "z \<le> length (rev ds0)" unfolding z_def by (rule length_takeWhile_le)
  then have zl: "nat (int (length ds0) - int (length ds0 - z)) = z" by simp
  have tz: "take (length ds0 - z) ds0 @ replicate z CHR ''0'' = ds0"
    unfolding z_def by (rule trailing_zeros)
  show ?thesis
    unfolding show_positive_def quotient_of_int
    using len tz zl by (simp add: fd Let_def ds0_def [symmetric] z_def [symmetric])
qed

lemma js_toString_int:
  assumes "\<bar>i\<bar> < 10 ^ 21"
  shows "js_toString (Num (rat_of_int i)) = show_int i"
proof -
  consider "i = 0" | "0 < i" | "i < 0" by linarith
  then show ?thesis
  proof cases
    case 1
    have "show_nat 0 = ''0''" by (subst show_nat.simps) simp
    then show ?thesis using 1 by (simp add: show_int_def)
  next
    case 2
    then show ?thesis using assms by (simp add: show_int_def show_positive_int)
  next
    case 3
    then have "show_positive (rat_of_int (- i)) = show_nat (nat (- i))"
      using assms by (intro show_positive_int) auto
    then show ?thesis using 3 by (simp add: show_int_def)
  qed
qed

lemma clean_show_nat: "clean (show_nat n)"
proof -
  have "list_all (\<lambda>c. \<not> is_letter c \<and> \<not> is_sep c) (show_nat n)"
  proof (induction n rule: show_nat.induct)
    case (1 n)
    show ?case
    proof (cases "n < 10")
      case True
      then show ?thesis by (subst show_nat.simps) (simp add: digit_char_props)
    next
      case False
      then show ?thesis using 1 by (subst show_nat.simps) (simp add: digit_char_props)
    qed
  qed
  then show ?thesis by (simp add: clean_def show_nat_nonempty)
qed

lemma clean_show_int: "clean (show_int i)"
  using clean_show_nat [of "nat i"] clean_show_nat [of "nat (- i)"]
  by (auto simp: show_int_def clean_def is_letter_def is_sep_def is_space_def)

lemma hd_show_nat: "hd (show_nat n) \<noteq> CHR ''-'' \<and> hd (show_nat n) \<noteq> CHR ''+''"
proof (induction n rule: show_nat.induct)
  case (1 n)
  show ?case
  proof (cases "n < 10")
    case True
    then show ?thesis by (subst (1 2) show_nat.simps) (simp add: digit_char_props)
  next
    case False
    then show ?thesis using 1 show_nat_nonempty [of "n div 10"]
      by (subst (1 2) show_nat.simps) simp
  qed
qed

lemma js_Number_show_nat: "js_Number (show_nat n) = Num (rat_of_nat n)"
proof -
  have tw: "takeWhile is_digit (show_nat n) = show_nat n"
    using show_nat_digits [of n] by (simp add: list_all_iff)
  have dw: "dropWhile is_digit (show_nat n) = []"
    using show_nat_digits [of n] by (simp add: list_all_iff)
  show ?thesis
    unfolding js_Number_def Let_def
    using hd_show_nat [of n] show_nat_nonempty [of n]
    by (simp add: tw dw digits_val_show_nat)
qed

lemma js_Number_neg_show_nat:
  "js_Number (CHR ''-'' # show_nat n) = Num (- rat_of_nat n)"
proof -
  have tw: "takeWhile is_digit (show_nat n) = show_nat n"
    using show_nat_digits [of n] by (simp add: list_all_iff)
  have dw: "dropWhile is_digit (show_nat n) = []"
    using show_nat_digits [of n] by (simp add: list_all_iff)
  show ?thesis
    unfolding js_Number_def Let_def
    using show_nat_nonempty [of n]
    by (simp add: tw dw digits_val_show_nat)
qed

lemma js_Number_show_int: "js_Number (show_int i) = Num (rat_of_int i)"
proof (cases "i < 0")
  case True
  then have "rat_of_nat (nat (- i)) = - rat_of_int i" by simp
  then show ?thesis using True by (simp add: show_int_def js_Number_neg_show_nat)
next
  case False
  then have "rat_of_nat (nat i) = rat_of_int i" by simp
  then show ?thesis using False by (simp add: show_int_def js_Number_show_nat)
qed

lemma is_int_round_trip:
  assumes "is_int v"
  shows "clean (js_toString v)" and "js_Number (js_toString v) = v"
proof -
  from assms obtain q where v: "v = Num q" and qi: "q \<in> \<int>" and qb: "\<bar>q\<bar> < 10 ^ 21"
    by (auto simp: is_int_def split: jsnum.splits)
  from qi obtain n where n: "q = rat_of_int n" by (auto elim: Ints_cases)
  have "- (10 ^ 21) < rat_of_int n" "rat_of_int n < 10 ^ 21" using qb n by (simp_all add: abs_less_iff)
  then have "- (10 ^ 21) < n" "n < 10 ^ 21" by simp_all
  then have b: "\<bar>n\<bar> < 10 ^ 21" by (simp add: abs_less_iff)
  have e: "js_toString v = show_int n"
    using js_toString_int [OF b] v n by simp
  show "clean (js_toString v)" unfolding e by (rule clean_show_int)
  show "js_Number (js_toString v) = v" unfolding e using v n by (simp add: js_Number_show_int)
qed

subsection \<open>Reading what pointsToPath writes\<close>

lemma dropWhile_hd: "xs \<noteq> [] \<Longrightarrow> \<not> P (hd xs) \<Longrightarrow> dropWhile P xs = xs"
  by (cases xs) simp_all

lemma trim_id:
  "s \<noteq> [] \<Longrightarrow> \<not> is_space (hd s) \<Longrightarrow> \<not> is_space (last s) \<Longrightarrow> trim s = s"
proof -
  assume a: "s \<noteq> []" "\<not> is_space (hd s)" "\<not> is_space (last s)"
  then have 1: "dropWhile is_space s = s" by (cases s) simp_all
  have "rev s \<noteq> []" "\<not> is_space (hd (rev s))" using a by (simp_all add: hd_rev)
  then have 2: "dropWhile is_space (rev s) = rev s" by (rule dropWhile_hd)
  show ?thesis by (simp add: trim_def 1 2)
qed

lemma trim_trailing_space:
  "s \<noteq> [] \<Longrightarrow> \<not> is_space (hd s) \<Longrightarrow> \<not> is_space (last s) \<Longrightarrow> trim (s @ '' '') = s"
proof -
  assume a: "s \<noteq> []" "\<not> is_space (hd s)" "\<not> is_space (last s)"
  then have 1: "dropWhile is_space (s @ '' '') = s @ '' ''" by (cases s) simp_all
  have sp: "is_space CHR '' ''" by (simp add: is_space_def)
  have "rev s \<noteq> []" "\<not> is_space (hd (rev s))" using a by (simp_all add: hd_rev)
  then have 2: "dropWhile is_space (rev s) = rev s" by (rule dropWhile_hd)
  show ?thesis by (simp add: trim_def 1 2 sp)
qed

lemma split_seps_clean: "list_all (\<lambda>c. \<not> is_sep c) s \<Longrightarrow> split_seps s = [s]"
  by (induction s) simp_all

lemma split_seps_two:
  "list_all (\<lambda>c. \<not> is_sep c) a \<Longrightarrow> list_all (\<lambda>c. \<not> is_sep c) b \<Longrightarrow> b \<noteq> [] \<Longrightarrow>
   split_seps (a @ CHR '' '' # b) = [a, b]"
proof (induction a)
  case Nil
  have sp: "is_sep CHR '' ''" by (simp add: is_sep_def is_space_def)
  have "\<not> is_sep (hd b)" using Nil by (cases b) simp_all
  then show ?case using Nil sp by (simp add: split_seps_clean)
next
  case (Cons c a)
  then show ?case by simp
qed

lemma clean_parts:
  assumes "clean s"
  shows "s \<noteq> []" and "list_all (\<lambda>c. \<not> is_sep c) s" and "list_all (\<lambda>c. \<not> is_letter c) s"
    and "\<not> is_space (hd s)" and "\<not> is_space (last s)"
proof -
  show ne: "s \<noteq> []" using assms by (simp add: clean_def)
  show 1: "list_all (\<lambda>c. \<not> is_sep c) s" using assms by (simp add: clean_def list_all_iff)
  show "list_all (\<lambda>c. \<not> is_letter c) s" using assms by (simp add: clean_def list_all_iff)
  have "hd s \<in> set s" "last s \<in> set s" using ne by simp_all
  then show "\<not> is_space (hd s)" "\<not> is_space (last s)"
    using 1 by (auto simp: list_all_iff is_sep_def)
qed

lemma tokstr_props:
  assumes "printable p"
  shows "tokstr p \<noteq> []" and "\<not> is_space (hd (tokstr p))" and "\<not> is_space (last (tokstr p))"
    and "list_all (\<lambda>c. \<not> is_letter c) (tokstr p)"
    and "split_seps (tokstr p) = [js_toString (pt_x p), js_toString (pt_y p)]"
proof -
  have cx: "clean (js_toString (pt_x p))" and cy: "clean (js_toString (pt_y p))"
    using assms by (simp_all add: printable_def)
  show "tokstr p \<noteq> []" by (simp add: tokstr_def)
  show "\<not> is_space (hd (tokstr p))"
    using clean_parts(1,4) [OF cx] by (simp add: tokstr_def)
  show "\<not> is_space (last (tokstr p))"
    using clean_parts(1,5) [OF cy] by (simp add: tokstr_def)
  have "\<not> is_letter CHR '' ''" by (simp add: is_letter_def)
  then show "list_all (\<lambda>c. \<not> is_letter c) (tokstr p)"
    using clean_parts(3) [OF cx] clean_parts(3) [OF cy] by (simp add: tokstr_def)
  show "split_seps (tokstr p) = [js_toString (pt_x p), js_toString (pt_y p)]"
    unfolding tokstr_def
    using split_seps_two [OF clean_parts(2) [OF cx] clean_parts(2) [OF cy] clean_parts(1) [OF cy]]
    by simp
qed

lemma parse_command_tok:
  assumes "c = CHR ''M'' \<or> c = CHR ''L''" and "printable p"
  shows "parse_command (c # tokstr p) = [reparse p]"
    and "parse_command (c # tokstr p @ '' '') = [reparse p]"
proof -
  note t = tokstr_props [OF assms(2)]
  have 1: "trim (tokstr p) = tokstr p" using t(1,2,3) by (rule trim_id)
  have 2: "trim (tokstr p @ '' '') = tokstr p" using t(1,2,3) by (rule trim_trailing_space)
  show "parse_command (c # tokstr p) = [reparse p]"
    using assms(1) by (auto simp: parse_command_def Let_def 1 t(5) reparse_def)
  show "parse_command (c # tokstr p @ '' '') = [reparse p]"
    using assms(1) by (auto simp: parse_command_def Let_def 2 t(5) reparse_def)
qed

lemma command_letters: "is_letter CHR ''M''" "is_letter CHR ''L''" "is_letter CHR ''Z''"
  by (simp_all add: is_letter_def)

lemma parsePath_Z: "parsePath ''Z'' = []"
  by (simp add: parsePath_def parse_command_def command_letters)

lemma parsePath_one_command:
  assumes "c = CHR ''M'' \<or> c = CHR ''L''" and "printable p"
  shows "parsePath (c # tokstr p) = [reparse p]"
    and "parsePath (c # tokstr p @ '' '') = [reparse p]"
proof -
  have l: "is_letter c" using assms(1) command_letters by auto
  note t = tokstr_props [OF assms(2)]
  have "\<not> is_letter CHR '' ''" by (simp add: is_letter_def)
  then have t': "list_all (\<lambda>c. \<not> is_letter c) (tokstr p @ '' '')" using t(4) by simp
  have m1: "match_commands (c # tokstr p) = [c # tokstr p]"
    using l t(4) by (rule match_commands_single)
  have m2: "match_commands (c # tokstr p @ '' '') = [c # tokstr p @ '' '']"
    using l t' by (rule match_commands_single)
  show "parsePath (c # tokstr p) = [reparse p]"
    unfolding parsePath_def m1 using parse_command_tok(1) [OF assms] by simp
  show "parsePath (c # tokstr p @ '' '') = [reparse p]"
    unfolding parsePath_def m2 using parse_command_tok(2) [OF assms] by simp
qed

lemma parsePath_lines:
  "c = CHR ''M'' \<or> c = CHR ''L'' \<Longrightarrow> printable p \<Longrightarrow> list_all printable qs \<Longrightarrow>
   parsePath (c # tokstr p @ concat (map (\<lambda>q. '' L'' @ tokstr q) qs) @ ''Z'')
     = reparse p # map reparse qs"
proof (induction qs arbitrary: c p)
  case Nil
  have "parsePath ((c # tokstr p) @ ''Z'') = parsePath (c # tokstr p) @ parsePath ''Z''"
    by (rule parsePath_append) (simp add: command_letters)
  then show ?case using parsePath_one_command(1) [OF Nil(1,2)] by (simp add: parsePath_Z)
next
  case (Cons q qs)
  let ?rest = "CHR ''L'' # tokstr q @ concat (map (\<lambda>q. '' L'' @ tokstr q) qs) @ ''Z''"
  have e: "c # tokstr p @ concat (map (\<lambda>q. '' L'' @ tokstr q) (q # qs)) @ ''Z''
           = (c # tokstr p @ '' '') @ ?rest" by simp
  have "parsePath ((c # tokstr p @ '' '') @ ?rest)
        = parsePath (c # tokstr p @ '' '') @ parsePath ?rest"
    by (rule parsePath_append) (simp add: command_letters)
  moreover have "parsePath ?rest = reparse q # map reparse qs"
    using Cons.IH [of "CHR ''L''" q] Cons.prems by simp
  ultimately show ?case
    unfolding e using parsePath_one_command(2) [OF Cons.prems(1,2)] by simp
qed

lemma next_points:
  "ps \<noteq> [] \<Longrightarrow> map (\<lambda>i. ps ! ((i + 1) mod length ps)) [0..<length ps] = tl ps @ [ps ! 0]"
proof (rule nth_equalityI)
  assume "ps \<noteq> []"
  then show "length (map (\<lambda>i. ps ! ((i + 1) mod length ps)) [0..<length ps]) = length (tl ps @ [ps ! 0])"
    by (cases ps) simp_all
next
  fix i
  assume ne: "ps \<noteq> []" and "i < length (map (\<lambda>i. ps ! ((i + 1) mod length ps)) [0..<length ps])"
  then have i: "i < length ps" by simp
  show "map (\<lambda>i. ps ! ((i + 1) mod length ps)) [0..<length ps] ! i = (tl ps @ [ps ! 0]) ! i"
  proof (cases "i + 1 < length ps")
    case True
    then have "i < length (tl ps)" by simp
    then have "(tl ps @ [ps ! 0]) ! i = ps ! Suc i" by (simp add: nth_append nth_tl)
    then show ?thesis using i True by simp
  next
    case False
    then have e: "i + 1 = length ps" using i by simp
    then have "i = length (tl ps)" by simp
    then have "(tl ps @ [ps ! 0]) ! i = ps ! 0" by (simp add: nth_append)
    then show ?thesis using i e by simp
  qed
qed

lemma line_to_eq: "line_to cur nxt = '' L'' @ tokstr nxt"
  by (simp add: line_to_def tokstr_def)

lemma pointsToPath_eq:
  "ps \<noteq> [] \<Longrightarrow>
   pointsToPath ps = CHR ''M'' # tokstr (ps ! 0)
                       @ concat (map (\<lambda>q. '' L'' @ tokstr q) (tl ps @ [ps ! 0])) @ ''Z''"
proof -
  assume ne: "ps \<noteq> []"
  have m: "map (\<lambda>i. line_to (ps ! i) (ps ! ((i + 1) mod length ps))) [0..<length ps]
        = map (\<lambda>q. '' L'' @ tokstr q) (tl ps @ [ps ! 0])"
    unfolding next_points [OF ne, symmetric] line_to_eq by (simp add: o_def)
  show ?thesis
    unfolding pointsToPath_def m using ne by (simp add: tokstr_def)
qed

lemma round_trip_printable:
  assumes "ps \<noteq> []" and "list_all printable ps"
  shows "parsePath (pointsToPath ps) = map reparse (ps @ [ps ! 0])"
proof -
  have p0: "printable (ps ! 0)" using assms by (cases ps) simp_all
  have tl: "list_all printable (tl ps @ [ps ! 0])" using assms by (cases ps) simp_all
  have "parsePath (pointsToPath ps) = reparse (ps ! 0) # map reparse (tl ps @ [ps ! 0])"
    unfolding pointsToPath_eq [OF assms(1)]
    by (rule parsePath_lines) (use p0 tl in simp_all)
  then show ?thesis using assms(1) by (cases ps) simp_all
qed

lemma int_point_printable: "int_point p \<Longrightarrow> printable p \<and> reparse p = p\<lparr>pt_type := Corner\<rparr>"
  by (simp add: int_point_def printable_def reparse_def is_int_round_trip)

text \<open>
  For every non-empty sequence of points with integer coordinates the round trip returns
  the points as corners, in order, followed by the first point once more.
\<close>

lemma round_trip_repeats_first_point:
  assumes "ps \<noteq> []" and "list_all int_point ps"
  shows "parsePath (pointsToPath ps) = map (\<lambda>p. p\<lparr>pt_type := Corner\<rparr>) (ps @ [ps ! 0])
       \<and> length (parsePath (pointsToPath ps)) = length ps + 1"
proof -
  have pr: "list_all printable ps" using assms(2) by (simp add: list_all_iff int_point_printable)
  have "map reparse (ps @ [ps ! 0]) = map (\<lambda>p. p\<lparr>pt_type := Corner\<rparr>) (ps @ [ps ! 0])"
  proof (rule map_cong [OF refl])
    fix p assume "p \<in> set (ps @ [ps ! 0])"
    then have "p \<in> set ps" using assms(1) by auto
    then show "reparse p = p\<lparr>pt_type := Corner\<rparr>"
      using assms(2) by (simp add: list_all_iff int_point_printable)
  qed
  then have "parsePath (pointsToPath ps) = map (\<lambda>p. p\<lparr>pt_type := Corner\<rparr>) (ps @ [ps ! 0])"
    using round_trip_printable [OF assms(1) pr] by simp
  then show ?thesis by simp
qed

text \<open>
  C1. The round trip does not return the original sequence: pointsToPath writes a line to
  every point after the first and one more line back to the first point, which parsePath
  reads as a point of its own. The triangle (0,0), (10,0), (10,10) comes back with four
  points, the first one repeated at the end.
\<close>

theorem round_trip_adds_point:
  "pointsToPath triangle = ''M0 0 L10 0 L10 10 L0 0Z''
   \<and> parsePath (pointsToPath triangle) = triangle @ [triangle ! 0]
   \<and> parsePath (pointsToPath triangle) \<noteq> triangle"
proof -
  have w: "pointsToPath triangle = ''M0 0 L10 0 L10 10 L0 0Z''"
    by code_simp
  have r: "parsePath ''M0 0 L10 0 L10 10 L0 0Z'' = triangle @ [triangle ! 0]"
    by code_simp
  have "length (triangle @ [triangle ! 0]) \<noteq> length triangle" by simp
  then have "triangle @ [triangle ! 0] \<noteq> triangle" by fastforce
  then show ?thesis using w r by simp
qed

end
